theory Spec2Isabelle
  imports Main
begin

section \<open>JavaScript strings\<close>

text \<open>
  A JavaScript string is a sequence of UTF-16 code units. A code unit is modelled as a
  natural number (below 65536 in every real string; the functions below are total and do
  not depend on the bound). Source literals are written with \<open>str\<close>, which maps an
  ASCII literal to its code units.
\<close>

type_synonym jsstring = "nat list"

definition str :: "string \<Rightarrow> jsstring" where
  "str s = map of_char s"

text \<open>
  \<open>String.prototype.trim\<close> and the regular-expression class \<open>\s\<close> use the same
  set: ECMAScript WhiteSpace (TAB, VT, FF, SP, NBSP, ZWNBSP and the Unicode space
  separators) together with LineTerminator (LF, CR, LS, PS).
\<close>

definition isWhiteSpace :: "nat \<Rightarrow> bool" where
  "isWhiteSpace c \<longleftrightarrow>
     c = 9 \<or> c = 10 \<or> c = 11 \<or> c = 12 \<or> c = 13 \<or> c = 32 \<or> c = 160 \<or> c = 5760 \<or>
     (8192 \<le> c \<and> c \<le> 8202) \<or> c = 8232 \<or> c = 8233 \<or> c = 8239 \<or> c = 8287 \<or>
     c = 12288 \<or> c = 65279"

definition trim :: "jsstring \<Rightarrow> jsstring" where
  "trim s = rev (dropWhile isWhiteSpace (rev (dropWhile isWhiteSpace s)))"

section \<open>Project cards: \<open>toggleProjectBox\<close>\<close>

text \<open>
  The part of a DOM element that \<open>toggleProjectBox\<close> reads and writes: the
  \<open>data-expanded\<close> attribute (\<open>None\<close> when the attribute is absent) and the class
  list, an ordered list of tokens.
\<close>

record element =
  dataset_expanded :: "jsstring option"
  classList :: "jsstring list"

text \<open>\<open>DOMTokenList.add\<close>, \<open>remove\<close> and \<open>toggle(token, force)\<close>.\<close>

definition classList_add :: "jsstring \<Rightarrow> jsstring list \<Rightarrow> jsstring list" where
  "classList_add tok cl = (if tok \<in> set cl then cl else cl @ [tok])"

definition classList_remove :: "jsstring \<Rightarrow> jsstring list \<Rightarrow> jsstring list" where
  "classList_remove tok cl = filter (\<lambda>t. t \<noteq> tok) cl"

definition classList_toggle :: "jsstring \<Rightarrow> bool \<Rightarrow> jsstring list \<Rightarrow> jsstring list" where
  "classList_toggle tok force cl =
     (if force then classList_add tok cl else classList_remove tok cl)"

text \<open>
  \<open>toggleProjectBox(projectElement)\<close>: the argument is a reference to an element or
  null (\<open>None\<close>); the result is the element after the call. A null reference returns
  at once.
\<close>

definition toggleProjectBox :: "element option \<Rightarrow> element option" where
  "toggleProjectBox projectElement =
     (case projectElement of
        None \<Rightarrow> None
      | Some e \<Rightarrow>
          let isExpanded = (dataset_expanded e = Some (str ''1''));
              e1 = e\<lparr>dataset_expanded := Some (if isExpanded then str ''0'' else str ''1'')\<rparr>;
              e2 = e1\<lparr>classList :=
                     classList_toggle (str ''project-large'') (\<not> isExpanded) (classList e1)\<rparr>;
              e3 = e2\<lparr>classList :=
                     classList_toggle (str ''project-small'') isExpanded (classList e2)\<rparr>
          in Some e3)"

text \<open>
  The root element of a card as \<open>developProject\<close> writes it: class
  \<open>project-box\<close> plus the size class, and \<open>data-expanded\<close> set to the number
  \<open>big\<close> (1 or 0; other values are rejected before any markup is produced).
\<close>

definition sizeClass :: "int \<Rightarrow> jsstring" where
  "sizeClass big = (if big = 1 then str ''project-large'' else str ''project-small'')"

definition cardRoot :: "int \<Rightarrow> element" where
  "cardRoot big =
     \<lparr>dataset_expanded = Some (if big = 1 then str ''1'' else str ''0''),
      classList = [str ''project-box'', sizeClass big]\<rparr>"

text \<open>
  A card is size-consistent when its \<open>data-expanded\<close> is \<open>'1'\<close> or \<open>'0'\<close> and its
  size class agrees with it: every card as rendered is.
\<close>

definition sizeConsistent :: "element \<Rightarrow> bool" where
  "sizeConsistent e \<longleftrightarrow>
     (dataset_expanded e = Some (str ''1'') \<and> str ''project-large'' \<in> set (classList e) \<and>
        str ''project-small'' \<notin> set (classList e)) \<or>
     (dataset_expanded e = Some (str ''0'') \<and> str ''project-small'' \<in> set (classList e) \<and>
        str ''project-large'' \<notin> set (classList e))"

section \<open>Regular expressions\<close>

text \<open>
  The source's regular expressions use character classes, concatenation, alternation and
  bounded or unbounded repetition only. Such an expression, anchored with \<open>^\<close> and
  \<open>$\<close>, accepts a string exactly when the string is in its language, which
  \<open>matches\<close> decides by derivatives.
\<close>

definition cu :: "char \<Rightarrow> nat" where
  "cu ch = of_char ch"

datatype rexp = Never | Eps | Cls "nat \<Rightarrow> bool" | Alt rexp rexp | Cat rexp rexp | Star rexp

primrec nullable :: "rexp \<Rightarrow> bool" where
  "nullable Never = False"
| "nullable Eps = True"
| "nullable (Cls P) = False"
| "nullable (Alt r s) = (nullable r \<or> nullable s)"
| "nullable (Cat r s) = (nullable r \<and> nullable s)"
| "nullable (Star r) = True"

primrec deriv :: "nat \<Rightarrow> rexp \<Rightarrow> rexp" where
  "deriv c Never = Never"
| "deriv c Eps = Never"
| "deriv c (Cls P) = (if P c then Eps else Never)"
| "deriv c (Alt r s) = Alt (deriv c r) (deriv c s)"
| "deriv c (Cat r s) =
     (if nullable r then Alt (Cat (deriv c r) s) (deriv c s) else Cat (deriv c r) s)"
| "deriv c (Star r) = Cat (deriv c r) (Star r)"

primrec matches :: "rexp \<Rightarrow> jsstring \<Rightarrow> bool" where
  "matches r [] = nullable r"
| "matches r (c # cs) = matches (deriv c r) cs"

text \<open>The language of an expression, as the reference for \<open>matches\<close>.\<close>

inductive accepts :: "rexp \<Rightarrow> jsstring \<Rightarrow> bool" where
  acc_Eps: "accepts Eps []"
| acc_Cls: "P c \<Longrightarrow> accepts (Cls P) [c]"
| acc_AltL: "accepts r w \<Longrightarrow> accepts (Alt r s) w"
| acc_AltR: "accepts s w \<Longrightarrow> accepts (Alt r s) w"
| acc_Cat: "accepts r u \<Longrightarrow> accepts s v \<Longrightarrow> accepts (Cat r s) (u @ v)"
| acc_StarNil: "accepts (Star r) []"
| acc_StarStep: "accepts r u \<Longrightarrow> accepts (Star r) v \<Longrightarrow> accepts (Star r) (u @ v)"

text \<open>\<open>r{n}\<close>, \<open>r{0,n}\<close>, \<open>r{m,n}\<close>, \<open>r+\<close> and a literal character.\<close>

primrec rep :: "nat \<Rightarrow> rexp \<Rightarrow> rexp" where
  "rep 0 r = Eps"
| "rep (Suc n) r = Cat r (rep n r)"

primrec repUpto :: "nat \<Rightarrow> rexp \<Rightarrow> rexp" where
  "repUpto 0 r = Eps"
| "repUpto (Suc n) r = Alt Eps (Cat r (repUpto n r))"

definition repRange :: "nat \<Rightarrow> nat \<Rightarrow> rexp \<Rightarrow> rexp" where
  "repRange m n r = Cat (rep m r) (repUpto (n - m) r)"

definition plus1 :: "rexp \<Rightarrow> rexp" where
  "plus1 r = Cat r (Star r)"

definition Lit :: "char \<Rightarrow> rexp" where
  "Lit ch = Cls (\<lambda>c. c = cu ch)"

section \<open>Sanitization: \<open>escapeHtml\<close>\<close>

text \<open>
  The lookup table \<open>map\<close> of \<open>escapeHtml\<close>, the class \<open>[&<>"']\<close> of its regular
  expression, and the replacer \<open>char => map[char]\<close> (a key missing from the table would
  give \<open>undefined\<close>, printed as such by \<open>replace\<close>).
\<close>

definition htmlEntities :: "(nat \<times> jsstring) list" where
  "htmlEntities =
     [(cu CHR ''&'', str ''&amp;''),
      (cu CHR ''<'', str ''&lt;''),
      (cu CHR ''>'', str ''&gt;''),
      (cu CHR 0x22, str ''&quot;''),
      (cu CHR 0x27, str ''&#039;'')]"

definition isHtmlSpecial :: "nat \<Rightarrow> bool" where
  "isHtmlSpecial c \<longleftrightarrow>
     c = cu CHR ''&'' \<or> c = cu CHR ''<'' \<or> c = cu CHR ''>'' \<or> c = cu CHR 0x22 \<or> c = cu CHR 0x27"

definition entityOf :: "nat \<Rightarrow> jsstring" where
  "entityOf c = (case map_of htmlEntities c of Some e \<Rightarrow> e | None \<Rightarrow> str ''undefined'')"

text \<open>
  \<open>s.replace(/[...]/g, f)\<close> for a one-character class: every character of the class is
  replaced by what the replacer returns for it, every other character is kept.
\<close>

fun replaceEach :: "(nat \<Rightarrow> bool) \<Rightarrow> (nat \<Rightarrow> jsstring) \<Rightarrow> jsstring \<Rightarrow> jsstring" where
  "replaceEach P f [] = []"
| "replaceEach P f (c # cs) = (if P c then f c else [c]) @ replaceEach P f cs"

text \<open>\<open>escapeHtml(text)\<close>; \<open>None\<close> is a null or undefined argument.\<close>

definition escapeHtml :: "jsstring option \<Rightarrow> jsstring" where
  "escapeHtml text =
     (let safeText = (case text of None \<Rightarrow> [] | Some t \<Rightarrow> t)
      in replaceEach isHtmlSpecial entityOf safeText)"

text \<open>
  What it means for a text to hold no raw HTML-significant character: the characters
  \<open>< > " '\<close> do not occur at all, and every \<open>&\<close> is the first character of one of
  the five entities.
\<close>

definition entityAt :: "jsstring \<Rightarrow> nat \<Rightarrow> bool" where
  "entityAt s i = list_ex (\<lambda>e. take (length e) (drop i s) = e) (map snd htmlEntities)"

definition noRawSpecial :: "jsstring \<Rightarrow> bool" where
  "noRawSpecial s \<longleftrightarrow>
     list_all (\<lambda>c. c = cu CHR ''&'' \<or> \<not> isHtmlSpecial c) s \<and>
     list_all (\<lambda>i. s ! i \<noteq> cu CHR ''&'' \<or> entityAt s i) [0..<length s]"

section \<open>Validation: \<open>isValidEmail\<close>, \<open>isValidPhoneNumber\<close>, \<open>validateContactForm\<close>\<close>

text \<open>
  A form field is a string, or null or undefined (\<open>None\<close>). \<open>falsy x\<close> is \<open>!x\<close>;
  \<open>blank x\<close> is \<open>!x || x.trim() === ''\<close>.
\<close>

definition falsy :: "jsstring option \<Rightarrow> bool" where
  "falsy x = (case x of None \<Rightarrow> True | Some s \<Rightarrow> s = [])"

definition blank :: "jsstring option \<Rightarrow> bool" where
  "blank x = (case x of None \<Rightarrow> True | Some s \<Rightarrow> s = [] \<or> trim s = [])"

text \<open>The value of a field inside a template literal or as the receiver of \<open>trim\<close>.\<close>

definition text_of :: "jsstring option \<Rightarrow> jsstring" where
  "text_of x = (case x of None \<Rightarrow> str ''undefined'' | Some s \<Rightarrow> s)"

text \<open>\<open>/^[^\s@]+@[^\s@]+\.[^\s@]+$/\<close>\<close>

definition notSpaceAt :: "nat \<Rightarrow> bool" where
  "notSpaceAt c \<longleftrightarrow> \<not> isWhiteSpace c \<and> c \<noteq> cu CHR ''@''"

definition emailRegex :: rexp where
  "emailRegex =
     Cat (plus1 (Cls notSpaceAt))
       (Cat (Lit CHR ''@'')
         (Cat (plus1 (Cls notSpaceAt))
           (Cat (Lit CHR ''.'') (plus1 (Cls notSpaceAt)))))"

definition isValidEmail :: "jsstring option \<Rightarrow> bool" where
  "isValidEmail email =
     (case email of
        None \<Rightarrow> False
      | Some e \<Rightarrow> if e = [] then False else matches emailRegex (trim e))"

text \<open>
  \<open>phone.replace(/[\s\-\.()]/g, '')\<close> and
  \<open>/^(\+33[1-9][0-9]{8}|0[1-9][0-9]{8}|\+[1-9][0-9]{1,2}[0-9]{6,14})$/\<close>
\<close>

definition isPhoneSeparator :: "nat \<Rightarrow> bool" where
  "isPhoneSeparator c \<longleftrightarrow>
     isWhiteSpace c \<or> c = cu CHR ''-'' \<or> c = cu CHR ''.'' \<or> c = cu CHR ''('' \<or> c = cu CHR '')''"

definition isDigit :: "nat \<Rightarrow> bool" where
  "isDigit c \<longleftrightarrow> cu CHR ''0'' \<le> c \<and> c \<le> cu CHR ''9''"

definition isDigit19 :: "nat \<Rightarrow> bool" where
  "isDigit19 c \<longleftrightarrow> cu CHR ''1'' \<le> c \<and> c \<le> cu CHR ''9''"

definition phoneRegex :: rexp where
  "phoneRegex =
     Alt (Cat (Lit CHR ''+'') (Cat (Lit CHR ''3'') (Cat (Lit CHR ''3'')
            (Cat (Cls isDigit19) (rep 8 (Cls isDigit))))))
    (Alt (Cat (Lit CHR ''0'') (Cat (Cls isDigit19) (rep 8 (Cls isDigit))))
         (Cat (Lit CHR ''+'') (Cat (Cls isDigit19)
            (Cat (repRange 1 2 (Cls isDigit)) (repRange 6 14 (Cls isDigit))))))"

definition isValidPhoneNumber :: "jsstring option \<Rightarrow> bool" where
  "isValidPhoneNumber phone =
     (case phone of
        None \<Rightarrow> False
      | Some p \<Rightarrow>
          if p = [] then False
          else let cleaned = replaceEach isPhoneSeparator (\<lambda>c. []) p
               in matches phoneRegex cleaned)"

text \<open>The object returned on success.\<close>

record submission =
  success :: bool
  name :: jsstring
  email :: jsstring
  phoneNumber :: jsstring
  company :: jsstring
  finalComment :: jsstring

text \<open>
  The outcome of a call of \<open>validateContactForm\<close>: the messages it passed to
  \<open>showError\<close>, in order, and the value it returned (\<open>None\<close> is \<open>false\<close>).
  \<open>reject msg\<close> is \<open>showError(msg); return false\<close>.
\<close>

type_synonym validation = "jsstring list \<times> submission option"

definition reject :: "jsstring \<Rightarrow> validation" where
  "reject msg = ([msg], None)"

definition validateContactForm ::
  "jsstring option \<Rightarrow> jsstring option \<Rightarrow> jsstring option \<Rightarrow> jsstring option \<Rightarrow>
   jsstring option \<Rightarrow> validation" where
  "validateContactForm = (\<lambda>name email phoneNumber company comment.
      if blank name then reject (str ''Name is required'')
      else if blank company then reject (str ''Company is required'')
      else if blank email \<and> blank phoneNumber
        then reject (str ''Please provide either an email or phone number'')
      else if \<not> blank email \<and> \<not> isValidEmail email
        then reject (str ''Please provide a valid email address'')
      else if \<not> blank phoneNumber \<and> \<not> isValidPhoneNumber phoneNumber
        then reject
          (str ''Please provide a valid phone number (French +33 or international format)'')
      else
        let finalComment =
              (if \<not> blank comment then text_of comment
               else text_of name @ str '' from '' @ text_of company @
                    str '' was interested in your portfolio'')
        in ([], Some \<lparr>success = True,
                      name = trim (text_of name),
                      email = (if falsy email then [] else trim (text_of email)),
                      phoneNumber = (if falsy phoneNumber then [] else trim (text_of phoneNumber)),
                      company = trim (text_of company),
                      finalComment = finalComment\<rparr>))"

text \<open>
  The rule sequence as the specification words it: five rules in a fixed order, each with
  its message; the outcome of a rejected form is the message of the first rule that
  fails.
\<close>

definition contactRules ::
  "jsstring option \<Rightarrow> jsstring option \<Rightarrow> jsstring option \<Rightarrow> jsstring option \<Rightarrow>
   (bool \<times> jsstring) list" where
  "contactRules n e p c =
     [(\<not> blank n, str ''Name is required''),
      (\<not> blank c, str ''Company is required''),
      (\<not> (blank e \<and> blank p), str ''Please provide either an email or phone number''),
      (blank e \<or> isValidEmail e, str ''Please provide a valid email address''),
      (blank p \<or> isValidPhoneNumber p,
       str ''Please provide a valid phone number (French +33 or international format)'')]"

definition firstFailure :: "(bool \<times> jsstring) list \<Rightarrow> jsstring option" where
  "firstFailure rules = map_option snd (find (\<lambda>r. \<not> fst r) rules)"

text \<open>The default comment, as the template literal of \<open>validateContactForm\<close> builds it.\<close>

definition defaultComment :: "jsstring \<Rightarrow> jsstring \<Rightarrow> jsstring" where
  "defaultComment ns cs = ns @ str '' from '' @ cs @ str '' was interested in your portfolio''"

text \<open>
  A proof device: every character class of an expression lies within \<open>Q\<close>. Then
  every character of an accepted string satisfies \<open>Q\<close>.
\<close>

primrec classesWithin :: "(nat \<Rightarrow> bool) \<Rightarrow> rexp \<Rightarrow> bool" where
  "classesWithin Q Never = True"
| "classesWithin Q Eps = True"
| "classesWithin Q (Cls P) = (\<forall>c. P c \<longrightarrow> Q c)"
| "classesWithin Q (Alt r s) = (classesWithin Q r \<and> classesWithin Q s)"
| "classesWithin Q (Cat r s) = (classesWithin Q r \<and> classesWithin Q s)"
| "classesWithin Q (Star r) = classesWithin Q r"

section \<open>Dispatch: \<open>sendEmail\<close>\<close>

text \<open>
  What a call of \<open>sendEmail\<close> does to the outside, in the order of the source: the
  notifications it raises, what it writes to the console, and its calls of the EmailJS
  API. \<open>ConsoleLogPayload target title content\<close> is
  \<open>console.log({ target, title, content: emailContent })\<close>; the second argument of
  \<open>ConsoleError\<close> is the value printed after the message, if any.
\<close>

record templateParams =
  to_email :: jsstring
  from_name :: jsstring
  message :: jsstring
  reply_to :: jsstring

datatype effect =
    ShowError jsstring
  | ShowSuccess jsstring
  | ShowInfo jsstring
  | ConsoleError jsstring "jsstring option"
  | ConsoleWarn jsstring
  | ConsoleLog jsstring
  | ConsoleLogPayload jsstring jsstring jsstring
  | EmailjsInit jsstring
  | EmailjsSend jsstring jsstring templateParams
  | ResetContactForm

text \<open>
  The surroundings of a call: whether the global \<open>emailjs\<close> is defined, and
  \<open>location.hostname\<close>.
\<close>

record env =
  emailjsLoaded :: bool
  hostname :: jsstring

text \<open>
  The three credential constants of \<open>sendEmail\<close>. The source ships them as the
  placeholders \<open>'service_id'\<close>, \<open>'template_id'\<close> and \<open>'public_key'\<close>, to be
  replaced by the site operator; the model takes them as a parameter. \<open>None\<close> is a
  constant set to null or undefined.
\<close>

record credentials =
  serviceID :: "jsstring option"
  templateID :: "jsstring option"
  publicKey :: "jsstring option"

definition placeholderCredentials :: credentials where
  "placeholderCredentials =
     \<lparr>serviceID = Some (str ''service_id''),
      templateID = Some (str ''template_id''),
      publicKey = Some (str ''public_key'')\<rparr>"

definition isValidCredentials :: "credentials \<Rightarrow> bool" where
  "isValidCredentials cr \<longleftrightarrow>
     \<not> falsy (serviceID cr) \<and> \<not> falsy (templateID cr) \<and> \<not> falsy (publicKey cr) \<and>
     serviceID cr \<noteq> Some (str ''service_id'') \<and>
     templateID cr \<noteq> Some (str ''template_id'') \<and>
     publicKey cr \<noteq> Some (str ''public_key'')"

text \<open>\<open>Array.prototype.join\<close>\<close>

fun join :: "jsstring \<Rightarrow> jsstring list \<Rightarrow> jsstring" where
  "join sep [] = []"
| "join sep [x] = x"
| "join sep (x # y # ys) = x @ sep @ join sep (y # ys)"

text \<open>The notification of the unconfigured path; its dash is U+2014.\<close>

definition previewMessage :: jsstring where
  "previewMessage =
     str ''Preview only '' @ [8212] @ str '' no email was sent. EmailJS is not configured.''"

definition credentialWarnings :: "credentials \<Rightarrow> effect list" where
  "credentialWarnings cr =
     [ConsoleWarn (str
        ''EmailJS credentials are not configured. Missing or placeholder values detected:'')] @
     (if serviceID cr = Some (str ''service_id'') \<or> falsy (serviceID cr)
      then [ConsoleWarn (str ''  - serviceID is missing or placeholder'')] else []) @
     (if templateID cr = Some (str ''template_id'') \<or> falsy (templateID cr)
      then [ConsoleWarn (str ''  - templateID is missing or placeholder'')] else []) @
     (if publicKey cr = Some (str ''public_key'') \<or> falsy (publicKey cr)
      then [ConsoleWarn (str ''  - publicKey is missing or placeholder'')] else [])"

definition emailBody :: "jsstring \<Rightarrow> jsstring \<Rightarrow> jsstring \<Rightarrow> jsstring" where
  "emailBody = (\<lambda>content senderEmail senderPhone.
     let sanitizedContent = escapeHtml (Some content);
         contactInfo =
           (if senderEmail \<noteq> [] then [str ''Email: '' @ escapeHtml (Some senderEmail)] else []) @
           (if senderPhone \<noteq> [] then [str ''Phone: '' @ escapeHtml (Some senderPhone)] else [])
     in join [10] ([sanitizedContent, [], str ''---'', str ''Contact Information:''] @ contactInfo))"

text \<open>
  \<open>sendEmail(target, title, content, senderEmail, senderPhone)\<close> with the credentials
  \<open>cr\<close>, in the surroundings \<open>ev\<close>, when the module variable
  \<open>emailJsInitialized\<close> holds \<open>initialized\<close>. The result is the effects of the call
  up to its return and the new value of \<open>emailJsInitialized\<close>. The promise returned by
  \<open>emailjs.send\<close> settles later; its handlers are \<open>sendEmail_then\<close> and
  \<open>sendEmail_catch\<close>.
\<close>

definition sendEmailWith ::
  "credentials \<Rightarrow> env \<Rightarrow> bool \<Rightarrow> jsstring option \<Rightarrow> jsstring \<Rightarrow> jsstring \<Rightarrow> jsstring \<Rightarrow>
   jsstring \<Rightarrow> effect list \<times> bool" where
  "sendEmailWith cr ev initialized = (\<lambda>target title content senderEmail senderPhone.
     if \<not> emailjsLoaded ev then
       ([ShowError (str ''Email service is not available. Please try again later.''),
         ConsoleError (str ''EmailJS is not loaded.'') None], initialized)
     else if falsy target \<or> \<not> isValidEmail target then
       ([ShowError (str ''Invalid recipient email address.''),
         ConsoleError (str ''Invalid target email:'') target], initialized)
     else
       let emailContent = emailBody content senderEmail senderPhone in
       if \<not> isValidCredentials cr then
         (credentialWarnings cr @
          (let isLocalDev = (hostname ev = str ''localhost'' \<or> hostname ev = str ''127.0.0.1'')
           in if isLocalDev
              then [ConsoleLog (str ''Email would be sent with the following content:''),
                    ConsoleLogPayload (text_of target) title emailContent]
              else []) @
          [ShowInfo previewMessage], initialized)
       else
         let params = \<lparr>to_email = text_of target, from_name = escapeHtml (Some title),
                        message = emailContent, reply_to = senderEmail\<rparr>
         in ((if \<not> initialized then [EmailjsInit (text_of (publicKey cr))] else []) @
             [EmailjsSend (text_of (serviceID cr)) (text_of (templateID cr)) params], True))"

definition sendEmail ::
  "env \<Rightarrow> bool \<Rightarrow> jsstring option \<Rightarrow> jsstring \<Rightarrow> jsstring \<Rightarrow> jsstring \<Rightarrow> jsstring \<Rightarrow>
   effect list \<times> bool" where
  "sendEmail = sendEmailWith placeholderCredentials"

definition sendEmail_then :: "effect list" where
  "sendEmail_then = [ShowSuccess (str ''Email sent successfully!''), ResetContactForm]"

definition sendEmail_catch :: "jsstring option \<Rightarrow> effect list" where
  "sendEmail_catch err =
     [ShowError (str ''Failed to send email. Please try again later.''),
      ConsoleError (str ''Email error:'') err]"

text \<open>An attempt at delivery: a call of the EmailJS API.\<close>

fun isDelivery :: "effect \<Rightarrow> bool" where
  "isDelivery (EmailjsInit k) = True"
| "isDelivery (EmailjsSend s t ps) = True"
| "isDelivery x = False"

text \<open>A console line that carries content of the message.\<close>

fun isPayloadLog :: "effect \<Rightarrow> bool" where
  "isPayloadLog (ConsoleLogPayload a b c) = True"
| "isPayloadLog x = False"

text \<open>A notification shown to the user.\<close>

fun isNotification :: "effect \<Rightarrow> bool" where
  "isNotification (ShowError m) = True"
| "isNotification (ShowSuccess m) = True"
| "isNotification (ShowInfo m) = True"
| "isNotification x = False"

section \<open>Locale switch: \<open>switchLanguage\<close>\<close>

text \<open>
  The regular expressions of \<open>switchLanguage\<close> are literal words anchored at the end
  of the path, with the flag \<open>i\<close>. Without the flag \<open>u\<close> a pattern character
  that is an ASCII letter matches its two ASCII cases only, and \<open>-\<close> and \<open>.\<close>
  match themselves. \<open>endsWithCI pat s\<close>, for a lower-case word \<open>pat\<close>, says that
  \<open>s\<close> ends with \<open>pat\<close> up to ASCII case.
\<close>

definition lowerAscii :: "nat \<Rightarrow> nat" where
  "lowerAscii c = (if cu CHR ''A'' \<le> c \<and> c \<le> cu CHR ''Z'' then c + 32 else c)"

definition endsWithCI :: "jsstring \<Rightarrow> jsstring \<Rightarrow> bool" where
  "endsWithCI pat s \<longleftrightarrow>
     length pat \<le> length s \<and> map lowerAscii (drop (length s - length pat) s) = pat"

text \<open>\<open>/\.html$/i.test(p)\<close> and \<open>/-fr\.html$/i.test(p)\<close>\<close>

definition testHtml :: "jsstring \<Rightarrow> bool" where
  "testHtml p = endsWithCI (str ''.html'') p"

definition testFrHtml :: "jsstring \<Rightarrow> bool" where
  "testFrHtml p = endsWithCI (str ''-fr.html'') p"

text \<open>
  \<open>p.replace(/-fr(\.html)$/i, '$1')\<close>: a match is the last eight characters, of
  which the last five are the group; they are kept and the three before them dropped.
  \<open>p.replace(/(\.html)$/i, '-fr$1')\<close>: a match is the last five characters, which
  are kept behind an inserted \<open>-fr\<close>. Without a match the path is returned as it is.
\<close>

definition removeFr :: "jsstring \<Rightarrow> jsstring" where
  "removeFr p =
     (if testFrHtml p then take (length p - 8) p @ drop (length p - 5) p else p)"

definition insertFr :: "jsstring \<Rightarrow> jsstring" where
  "insertFr p =
     (if testHtml p then take (length p - 5) p @ str ''-fr'' @ drop (length p - 5) p else p)"

text \<open>\<open>String.prototype.endsWith\<close>\<close>

definition endsWith :: "jsstring \<Rightarrow> jsstring \<Rightarrow> bool" where
  "endsWith s suffix \<longleftrightarrow>
     length suffix \<le> length s \<and> drop (length s - length suffix) s = suffix"

text \<open>
  The URL object \<open>new URL(window.location.href)\<close>, with the parts of a URL record that
  the function reads and writes. \<open>beforePath\<close> is what the serializer writes in front
  of the path: the scheme with its colon and, for a URL with a host, \<open>//\<close> and the
  authority. \<open>opaquePath\<close> says that the path is an opaque string, as in
  \<open>about:blank\<close> or a \<open>blob:\<close> or \<open>data:\<close> address, and not a list of
  segments. \<open>pathname\<close> is the serialized path. The query and the fragment are null
  (\<open>None\<close>) or a string, which may be empty: a URL that ends in \<open>#\<close> has the
  empty fragment, and its serialization keeps the \<open>#\<close>.
\<close>

record url =
  beforePath :: jsstring
  opaquePath :: bool
  pathname :: jsstring
  query :: "jsstring option"
  fragment :: "jsstring option"

text \<open>\<open>url.toString()\<close>, the URL serializer.\<close>

definition url_toString :: "url \<Rightarrow> jsstring" where
  "url_toString u =
     beforePath u @ pathname u @
     (case query u of None \<Rightarrow> [] | Some q \<Rightarrow> cu CHR ''?'' # q) @
     (case fragment u of None \<Rightarrow> [] | Some f \<Rightarrow> cu CHR ''#'' # f)"

text \<open>
  \<open>url.pathname = value\<close>. The setter does nothing on a URL with an opaque path.
  Otherwise it parses the value as a path and stores the result. A path that is not
  opaque is empty or begins with \<open>/\<close>, holds no dot segment and is percent-encoded;
  the values that \<open>switchLanguage\<close> assigns are such a path with \<open>index.html\<close>
  added as a last segment, or with \<open>-fr\<close> put into or taken out of a last segment
  that ends in \<open>.html\<close>, and the parser stores a value of that form as it is.
\<close>

definition setPathname :: "jsstring \<Rightarrow> url \<Rightarrow> url" where
  "setPathname v u = (if opaquePath u then u else u\<lparr>pathname := v\<rparr>)"

text \<open>
  \<open>newPath\<close> as \<open>switchLanguage\<close> computes it from \<open>lang\<close> (1 for English, 0 for
  French) and the current path.
\<close>

definition switchPath :: "int \<Rightarrow> jsstring \<Rightarrow> jsstring" where
  "switchPath lang currentPath =
     (let normalizedPath =
            (if \<not> testHtml currentPath
             then (if \<not> endsWith currentPath (str ''/'') then currentPath @ str ''/''
                   else currentPath) @ str ''index.html''
             else currentPath)
      in if lang = 1 then removeFr normalizedPath
         else if \<not> testFrHtml normalizedPath then insertFr normalizedPath
         else normalizedPath)"

text \<open>
  The outcome of \<open>switchLanguage(lang)\<close> on the page at \<open>u\<close>: the string
  assigned to \<open>window.location.href\<close>, no navigation, or the refusal of a \<open>lang\<close>
  that is neither 1 nor 0 (logged with \<open>console.error\<close>).
\<close>

datatype navigation = Navigate jsstring | NoNavigation | InvalidLanguage

definition switchLanguage :: "int \<Rightarrow> url \<Rightarrow> navigation" where
  "switchLanguage lang u =
     (if lang \<noteq> 1 \<and> lang \<noteq> 0 then InvalidLanguage
      else
        let currentPath = pathname u;
            newPath = switchPath lang currentPath
        in if newPath \<noteq> currentPath then Navigate (url_toString (setPathname newPath u))
           else NoNavigation)"

section \<open>Notifications: \<open>showMessage\<close>\<close>

text \<open>
  \<open>showMessage\<close> is private to its module and is called with the three types
  \<open>'error'\<close>, \<open>'success'\<close> and \<open>'info'\<close> only.
\<close>

datatype kind = ErrorKind | SuccessKind | InfoKind

fun typeName :: "kind \<Rightarrow> jsstring" where
  "typeName ErrorKind = str ''error''"
| "typeName SuccessKind = str ''success''"
| "typeName InfoKind = str ''info''"

definition messageId :: "kind \<Rightarrow> jsstring" where
  "messageId k = typeName k @ str ''-message''"

text \<open>
  A message element as \<open>showMessage\<close> creates and changes it. Elements are objects:
  the page keeps every element created in \<open>divs\<close>, and an element is referred to by
  its index there. \<open>bodyChildren\<close> lists the elements inserted into
  \<open>document.body\<close>, in document order (\<open>insertBefore(..., firstChild)\<close> puts a new
  one in front).
\<close>

record msgDiv =
  div_id :: jsstring
  div_className :: jsstring
  div_role :: jsstring
  div_ariaLive :: jsstring
  textContent :: jsstring
  display :: jsstring

text \<open>
  A timer set by \<open>setTimeout\<close> and not yet run or cleared: its handle, the time at
  which it is due, and the element its callback hides.
\<close>

record timer =
  timer_handle :: nat
  timer_due :: nat
  timer_div :: nat

text \<open>
  The state of the page as far as notifications go: whether \<open>document.body\<close> exists,
  the elements, the module's table \<open>messageTimers\<close> (\<open>None\<close> is null), the timers
  waiting, the listeners registered for \<open>DOMContentLoaded\<close> (each with the type,
  message, duration and element its closure holds), the clock in milliseconds and the
  next timer handle (handles are positive integers).
\<close>

record page =
  bodyReady :: bool
  divs :: "msgDiv list"
  bodyChildren :: "nat list"
  messageTimers :: "kind \<Rightarrow> nat option"
  pending :: "timer list"
  listeners :: "(kind \<times> jsstring \<times> nat \<times> nat) list"
  now :: nat
  nextHandle :: nat

definition initialPage :: page where
  "initialPage =
     \<lparr>bodyReady = False, divs = [], bodyChildren = [], messageTimers = (\<lambda>k. None),
      pending = [], listeners = [], now = 0, nextHandle = 1\<rparr>"

definition getElementById :: "page \<Rightarrow> jsstring \<Rightarrow> nat option" where
  "getElementById s ident = find (\<lambda>j. div_id (divs s ! j) = ident) (bodyChildren s)"

text \<open>\<open>setTimeout(() => { div.style.display = 'none' }, duration)\<close> and \<open>clearTimeout\<close>\<close>

definition setTimeout :: "nat \<Rightarrow> nat \<Rightarrow> page \<Rightarrow> nat \<times> page" where
  "setTimeout i duration s =
     (nextHandle s,
      s\<lparr>pending := pending s @
            [\<lparr>timer_handle = nextHandle s, timer_due = now s + duration, timer_div = i\<rparr>],
        nextHandle := nextHandle s + 1\<rparr>)"

definition clearTimeout :: "nat \<Rightarrow> page \<Rightarrow> page" where
  "clearTimeout h s = s\<lparr>pending := filter (\<lambda>t. timer_handle t \<noteq> h) (pending s)\<rparr>"

text \<open>\<open>messageDiv.textContent = message; messageDiv.style.display = 'block'\<close>\<close>

definition displayMessage :: "nat \<Rightarrow> jsstring \<Rightarrow> page \<Rightarrow> page" where
  "displayMessage i msg s =
     s\<lparr>divs := (divs s)[i := (divs s ! i)\<lparr>textContent := msg, display := str ''block''\<rparr>]\<rparr>"

text \<open>
  The element that \<open>showMessage\<close> creates when the document has none of the id:
  \<open>createElement('div')\<close> with its id, class, \<open>role\<close> and \<open>aria-live\<close> set.
\<close>

definition newDiv :: "kind \<Rightarrow> msgDiv" where
  "newDiv type =
     \<lparr>div_id = typeName type @ str ''-message'',
      div_className = typeName type @ str ''-message'',
      div_role = str ''alert'', div_ariaLive = str ''polite'',
      textContent = [], display = []\<rparr>"

text \<open>
  The tail of \<open>showMessage\<close>, once \<open>messageDiv\<close> is an element of the document:
  show the text, clear the timer recorded for the type if the table holds a truthy
  handle, set a new timer and record it.
\<close>

definition showOn :: "kind \<Rightarrow> nat \<Rightarrow> jsstring \<Rightarrow> nat \<Rightarrow> page \<Rightarrow> page" where
  "showOn type i msg duration s =
     (let s1 = displayMessage i msg s;
          s2 = (case messageTimers s1 type of
                  None \<Rightarrow> s1
                | Some h \<Rightarrow> if h \<noteq> 0 then clearTimeout h s1 else s1);
          (h, s3) = setTimeout i duration s2
      in s3\<lparr>messageTimers := (messageTimers s3)(type := Some h)\<rparr>)"

definition showMessage :: "kind \<Rightarrow> jsstring \<Rightarrow> nat \<Rightarrow> page \<Rightarrow> page" where
  "showMessage type msg duration s =
     (let ident = typeName type @ str ''-message'' in
      case getElementById s ident of
        Some i \<Rightarrow> showOn type i msg duration s
      | None \<Rightarrow>
          let i = length (divs s);
              s1 = s\<lparr>divs := divs s @ [newDiv type]\<rparr>
          in if bodyReady s1
             then showOn type i msg duration (s1\<lparr>bodyChildren := i # bodyChildren s1\<rparr>)
             else s1\<lparr>listeners := listeners s1 @ [(type, msg, duration, i)]\<rparr>)"

definition showError :: "jsstring \<Rightarrow> page \<Rightarrow> page" where
  "showError msg = showMessage ErrorKind msg 5000"

definition showSuccess :: "jsstring \<Rightarrow> page \<Rightarrow> page" where
  "showSuccess msg = showMessage SuccessKind msg 5000"

definition showInfo :: "jsstring \<Rightarrow> page \<Rightarrow> page" where
  "showInfo msg = showMessage InfoKind msg 5000"

text \<open>
  The listener that \<open>showMessage\<close> registers when the body does not exist yet. It
  inserts and shows its element only if no element of that id is in the document by
  then, and it sets its timer without clearing one.
\<close>

definition runListener :: "kind \<times> jsstring \<times> nat \<times> nat \<Rightarrow> page \<Rightarrow> page" where
  "runListener l s =
     (case l of (type, msg, duration, i) \<Rightarrow>
        if getElementById s (typeName type @ str ''-message'') = None \<and> bodyReady s
        then let s1 = displayMessage i msg (s\<lparr>bodyChildren := i # bodyChildren s\<rparr>);
                 (h, s2) = setTimeout i duration s1
             in s2\<lparr>messageTimers := (messageTimers s2)(type := Some h)\<rparr>
        else s)"

definition domContentLoaded :: "page \<Rightarrow> page" where
  "domContentLoaded s = foldl (\<lambda>s' l. runListener l s') (s\<lparr>listeners := []\<rparr>) (listeners s)"

text \<open>
  A timer runs: its callback hides its element, and the timer is no longer pending.
  When time passes, the timers that have become due run (in the order in which they were
  set; their callbacks write to their own elements only).
\<close>

definition fireTimer :: "timer \<Rightarrow> page \<Rightarrow> page" where
  "fireTimer t s =
     s\<lparr>divs := (divs s)[timer_div t := (divs s ! timer_div t)\<lparr>display := str ''none''\<rparr>],
       pending := filter (\<lambda>t'. timer_handle t' \<noteq> timer_handle t) (pending s)\<rparr>"

definition elapse :: "nat \<Rightarrow> page \<Rightarrow> page" where
  "elapse dt s =
     (let s1 = s\<lparr>now := now s + dt\<rparr>
      in foldl (\<lambda>s' t. fireTimer t s') s1 (filter (\<lambda>t. timer_due t \<le> now s1) (pending s1)))"

text \<open>What can happen to the page, and the states it can reach.\<close>

datatype event = Show kind jsstring nat | BodyParsed | DomContentLoaded | Elapse nat

fun step :: "event \<Rightarrow> page \<Rightarrow> page" where
  "step (Show k msg duration) s = showMessage k msg duration s"
| "step BodyParsed s = s\<lparr>bodyReady := True\<rparr>"
| "step DomContentLoaded s = domContentLoaded s"
| "step (Elapse dt) s = elapse dt s"

definition run :: "event list \<Rightarrow> page" where
  "run es = foldl (\<lambda>s e. step e s) initialPage es"

inductive reachable :: "page \<Rightarrow> bool" where
  reachable_init: "reachable initialPage"
| reachable_step: "reachable s \<Longrightarrow> reachable (step e s)"

text \<open>
  The expiries scheduled for a kind: the pending timers whose element carries that kind's
  id. The message of a kind that the user sees, if any.
\<close>

definition timersOf :: "kind \<Rightarrow> page \<Rightarrow> timer list" where
  "timersOf k s = filter (\<lambda>t. div_id (divs s ! timer_div t) = messageId k) (pending s)"

definition visibleMessage :: "kind \<Rightarrow> page \<Rightarrow> jsstring option" where
  "visibleMessage k s =
     (case getElementById s (messageId k) of
        None \<Rightarrow> None
      | Some i \<Rightarrow> if display (divs s ! i) = str ''block'' then Some (textContent (divs s ! i))
                  else None)"

text \<open>
  The invariant of the reachable states. A pending timer hides an element of the
  document that carries the id of some kind, and the table \<open>messageTimers\<close> holds the
  timer's handle for that kind and for no other; handles in the table and of pending
  timers are below the next handle, and pending timers have distinct positive handles.
\<close>

definition allKinds :: "kind list" where
  "allKinds = [ErrorKind, SuccessKind, InfoKind]"

definition timerOk :: "page \<Rightarrow> timer \<Rightarrow> bool" where
  "timerOk s t \<longleftrightarrow>
     timer_div t \<in> set (bodyChildren s) \<and> timer_handle t \<noteq> 0 \<and> timer_handle t < nextHandle s \<and>
     list_ex (\<lambda>k. div_id (divs s ! timer_div t) = messageId k) allKinds \<and>
     list_all (\<lambda>k. (messageTimers s k = Some (timer_handle t)) =
                    (div_id (divs s ! timer_div t) = messageId k)) allKinds"

definition listenerOk :: "page \<Rightarrow> kind \<times> jsstring \<times> nat \<times> nat \<Rightarrow> bool" where
  "listenerOk s l \<longleftrightarrow>
     (case l of (k, msg, duration, i) \<Rightarrow> i < length (divs s) \<and> div_id (divs s ! i) = messageId k)"

definition wellFormed :: "page \<Rightarrow> bool" where
  "wellFormed s \<longleftrightarrow>
     list_all (timerOk s) (pending s) \<and>
     distinct (map timer_handle (pending s)) \<and>
     0 < nextHandle s \<and>
     list_all (\<lambda>k. case messageTimers s k of None \<Rightarrow> True | Some h \<Rightarrow> h < nextHandle s)
       allKinds \<and>
     list_all (\<lambda>i. i < length (divs s)) (bodyChildren s) \<and>
     list_all (listenerOk s) (listeners s)"

section \<open>Skill keys: \<open>normalizeSkillKey\<close>, \<open>safeCssEscape\<close>, \<open>highlightSkill\<close>\<close>

subsection \<open>\<open>encodeURIComponent\<close>\<close>

text \<open>
  ECMAScript's \<open>Encode\<close> with the unreserved set of \<open>encodeURIComponent\<close>:
  letters, digits and \<open>- _ . ! ~ * ' ( )\<close> are kept; any other code point is written
  as its UTF-8 octets, each as \<open>%\<close> and two upper-case hexadecimal digits. A
  surrogate that is not part of a pair raises URIError (\<open>None\<close>).
\<close>

definition isAlpha :: "nat \<Rightarrow> bool" where
  "isAlpha c \<longleftrightarrow>
     (cu CHR ''A'' \<le> c \<and> c \<le> cu CHR ''Z'') \<or> (cu CHR ''a'' \<le> c \<and> c \<le> cu CHR ''z'')"

definition isUnreserved :: "nat \<Rightarrow> bool" where
  "isUnreserved c \<longleftrightarrow>
     isAlpha c \<or> isDigit c \<or> c = cu CHR ''-'' \<or> c = cu CHR ''_'' \<or> c = cu CHR ''.'' \<or>
     c = cu CHR ''!'' \<or> c = cu CHR ''~'' \<or> c = cu CHR ''*'' \<or> c = cu CHR 0x27 \<or>
     c = cu CHR ''('' \<or> c = cu CHR '')''"

definition isLeadSurrogate :: "nat \<Rightarrow> bool" where
  "isLeadSurrogate c \<longleftrightarrow> 0xD800 \<le> c \<and> c \<le> 0xDBFF"

definition isTrailSurrogate :: "nat \<Rightarrow> bool" where
  "isTrailSurrogate c \<longleftrightarrow> 0xDC00 \<le> c \<and> c \<le> 0xDFFF"

definition surrogatePair :: "nat \<Rightarrow> nat \<Rightarrow> nat" where
  "surrogatePair lead trail = (lead - 0xD800) * 0x400 + (trail - 0xDC00) + 0x10000"

definition utf8 :: "nat \<Rightarrow> nat list" where
  "utf8 cp =
     (if cp < 0x80 then [cp]
      else if cp < 0x800 then [0xC0 + cp div 64, 0x80 + cp mod 64]
      else if cp < 0x10000 then [0xE0 + cp div 4096, 0x80 + cp div 64 mod 64, 0x80 + cp mod 64]
      else [0xF0 + cp div 262144, 0x80 + cp div 4096 mod 64, 0x80 + cp div 64 mod 64,
            0x80 + cp mod 64])"

definition hexUpper :: "nat \<Rightarrow> nat" where
  "hexUpper n = (if n mod 16 < 10 then cu CHR ''0'' + n mod 16 else cu CHR ''A'' + (n mod 16 - 10))"

definition percentEncode :: "nat list \<Rightarrow> jsstring" where
  "percentEncode octets = concat (map (\<lambda>b. [cu CHR ''%'', hexUpper (b div 16), hexUpper b]) octets)"

fun encodeURIComponent :: "jsstring \<Rightarrow> jsstring option" where
  "encodeURIComponent [] = Some []"
| "encodeURIComponent (c # cs) =
     (if isUnreserved c then map_option (\<lambda>r. c # r) (encodeURIComponent cs)
      else if isTrailSurrogate c then None
      else if isLeadSurrogate c then
        (case cs of
           [] \<Rightarrow> None
         | d # ds \<Rightarrow>
             if isTrailSurrogate d
             then map_option (\<lambda>r. percentEncode (utf8 (surrogatePair c d)) @ r)
                    (encodeURIComponent ds)
             else None)
      else map_option (\<lambda>r. percentEncode (utf8 c) @ r) (encodeURIComponent cs))"

text \<open>\<open>normalizeSkillKey(skill)\<close>, for a skill that is a string.\<close>

definition normalizeSkillKey :: "jsstring \<Rightarrow> jsstring option" where
  "normalizeSkillKey skill = encodeURIComponent skill"

subsection \<open>\<open>safeCssEscape\<close>\<close>

text \<open>
  \<open>CSS.escape\<close> as CSSOM defines it (serialize an identifier), on code units:
  NUL becomes U+FFFD; a control character, a digit in first position and a digit in
  second position after a hyphen are escaped as code points (backslash, lower-case
  hexadecimal digits, a space); a lone hyphen is escaped with a backslash; code units from
  U+0080, hyphen, underscore, digits and letters are kept; any other character is
  preceded by a backslash.
\<close>

definition hexLower :: "nat \<Rightarrow> nat" where
  "hexLower n = (if n mod 16 < 10 then cu CHR ''0'' + n mod 16 else cu CHR ''a'' + (n mod 16 - 10))"

definition escapeAsCodePoint :: "nat \<Rightarrow> jsstring" where
  "escapeAsCodePoint c =
     [cu CHR 0x5C] @ (if c < 16 then [hexLower c] else [hexLower (c div 16), hexLower c]) @
     [cu CHR '' '']"

definition cssEscapeChar :: "jsstring \<Rightarrow> nat \<times> nat \<Rightarrow> jsstring" where
  "cssEscapeChar s = (\<lambda>(i, c).
     if c = 0 then [0xFFFD]
     else if (1 \<le> c \<and> c \<le> 0x1F) \<or> c = 0x7F then escapeAsCodePoint c
     else if i = 0 \<and> isDigit c then escapeAsCodePoint c
     else if i = 1 \<and> isDigit c \<and> hd s = cu CHR ''-'' then escapeAsCodePoint c
     else if i = 0 \<and> length s = 1 \<and> c = cu CHR ''-'' then [cu CHR 0x5C, c]
     else if 0x80 \<le> c \<or> c = cu CHR ''-'' \<or> c = cu CHR ''_'' \<or> isDigit c \<or> isAlpha c then [c]
     else [cu CHR 0x5C, c])"

definition CSS_escape :: "jsstring \<Rightarrow> jsstring" where
  "CSS_escape s = concat (map (cssEscapeChar s) (enumerate 0 s))"

text \<open>
  The fallback of \<open>safeCssEscape\<close>:
  \<open>replace(/([!"#$%&'()*+,./:;<=>?@\[\\\]^`{|}~])/g, '\\$1')\<close>.
\<close>

definition isCssSpecial :: "nat \<Rightarrow> bool" where
  "isCssSpecial c \<longleftrightarrow>
     c \<in> set (str ''!#$%&()*+,./:;<=>?@[]^{|}~'') \<or> c = cu CHR 0x22 \<or> c = cu CHR 0x27 \<or>
     c = cu CHR 0x5C \<or> c = cu CHR 0x60"

text \<open>
  \<open>safeCssEscape(value)\<close>; \<open>cssAvailable\<close> says whether \<open>CSS.escape\<close> exists
  in the browser, \<open>None\<close> is a null or undefined value.
\<close>

definition safeCssEscape :: "bool \<Rightarrow> jsstring option \<Rightarrow> jsstring" where
  "safeCssEscape cssAvailable v =
     (let stringValue = (case v of None \<Rightarrow> [] | Some x \<Rightarrow> x)
      in if cssAvailable then CSS_escape stringValue
         else replaceEach isCssSpecial (\<lambda>c. [cu CHR 0x5C, c]) stringValue)"

subsection \<open>The browser's side: attribute values and attribute selectors\<close>

text \<open>
  The HTML tokenizer reads a double-quoted attribute value up to the closing quote. An
  ampersand would start a character reference, which this model does not decode
  (\<open>None\<close>); the values read here hold none.
\<close>

definition htmlAttributeValue :: "jsstring \<Rightarrow> (jsstring \<times> jsstring) option" where
  "htmlAttributeValue s =
     (let v = takeWhile (\<lambda>c. c \<noteq> cu CHR 0x22) s;
          r = dropWhile (\<lambda>c. c \<noteq> cu CHR 0x22) s
      in if r = [] \<or> cu CHR ''&'' \<in> set v \<or> 0 \<in> set v \<or> 13 \<in> set v then None
         else Some (v, tl r))"

text \<open>
  CSS Syntax, preprocessing of the input: CR LF, CR and FF become LF, and NUL becomes
  U+FFFD.
\<close>

fun cssPreprocess :: "jsstring \<Rightarrow> jsstring" where
  "cssPreprocess [] = []"
| "cssPreprocess [c] = (if c = 13 \<or> c = 12 then [10] else if c = 0 then [0xFFFD] else [c])"
| "cssPreprocess (c # d # cs) =
     (if c = 13 \<and> d = 10 then 10 # cssPreprocess cs
      else (if c = 13 \<or> c = 12 then 10 else if c = 0 then 0xFFFD else c) # cssPreprocess (d # cs))"

text \<open>
  CSS Syntax, consume an escaped code point (the backslash has been read, and the next
  code point is neither a newline nor the end): up to six hexadecimal digits and one
  whitespace after them give the code point of that number (U+FFFD for zero, a surrogate
  or a number beyond U+10FFFF); any other code point stands for itself. The result is
  the code point and the rest of the input.
\<close>

definition isHexDigit :: "nat \<Rightarrow> bool" where
  "isHexDigit c \<longleftrightarrow>
     isDigit c \<or> (cu CHR ''a'' \<le> c \<and> c \<le> cu CHR ''f'') \<or> (cu CHR ''A'' \<le> c \<and> c \<le> cu CHR ''F'')"

definition hexDigitValue :: "nat \<Rightarrow> nat" where
  "hexDigitValue c =
     (if isDigit c then c - cu CHR ''0''
      else if cu CHR ''a'' \<le> c \<and> c \<le> cu CHR ''f'' then c - cu CHR ''a'' + 10
      else c - cu CHR ''A'' + 10)"

definition hexValue :: "jsstring \<Rightarrow> nat" where
  "hexValue hs = foldl (\<lambda>n h. 16 * n + hexDigitValue h) 0 hs"

definition isCssWhitespace :: "nat \<Rightarrow> bool" where
  "isCssWhitespace c \<longleftrightarrow> c = 10 \<or> c = 9 \<or> c = 32"

definition consumeEscaped :: "nat \<Rightarrow> jsstring \<Rightarrow> nat \<times> jsstring" where
  "consumeEscaped d ds =
     (if isHexDigit d then
        let more = take 5 (takeWhile isHexDigit ds);
            rest0 = drop (length more) ds;
            rest = (case rest0 of [] \<Rightarrow> [] | w # ws \<Rightarrow> if isCssWhitespace w then ws else rest0);
            n = hexValue (d # more)
        in (if n = 0 \<or> (0xD800 \<le> n \<and> n \<le> 0xDFFF) \<or> 0x10FFFF < n then 0xFFFD else n, rest)
      else (d, ds))"

text \<open>A code point as UTF-16 code units, as the DOM stores it.\<close>

definition codeUnits :: "nat \<Rightarrow> jsstring" where
  "codeUnits cp =
     (if cp < 0x10000 then [cp]
      else [0xD800 + (cp - 0x10000) div 0x400, 0xDC00 + (cp - 0x10000) mod 0x400])"

text \<open>
  CSS Syntax, consume a string token whose opening double quote has been read: the value
  of the string and the rest of the input behind the closing quote. A newline inside the
  string makes a bad-string token (\<open>None\<close>); the end of the input closes the string.
\<close>

function consumeString :: "jsstring \<Rightarrow> (jsstring \<times> jsstring) option" where
  "consumeString [] = Some ([], [])"
| "consumeString (c # cs) =
     (if c = cu CHR 0x22 then Some ([], cs)
      else if c = 10 then None
      else if c = cu CHR 0x5C then
        (case cs of
           [] \<Rightarrow> Some ([], [])
         | d # ds \<Rightarrow>
             if d = 10 then consumeString ds
             else map_option (\<lambda>(v, r). (codeUnits (fst (consumeEscaped d ds)) @ v, r))
                    (consumeString (snd (consumeEscaped d ds))))
      else map_option (\<lambda>(v, r). (c # v, r)) (consumeString cs))"
  by pat_completeness auto

termination consumeString
proof (relation "measure length")
  fix c d :: nat and cs ds :: "nat list"
  assume "cs = d # ds"
  have "length (snd (consumeEscaped d ds)) \<le> length ds"
  proof (cases "isHexDigit d")
    case False
    then show ?thesis by (simp add: consumeEscaped_def)
  next
    case True
    let ?r0 = "drop (length (take 5 (takeWhile isHexDigit ds))) ds"
    have "length (case ?r0 of [] \<Rightarrow> [] | w # ws \<Rightarrow> if isCssWhitespace w then ws else ?r0)
            \<le> length ?r0"
      by (cases ?r0) simp_all
    also have "\<dots> \<le> length ds" by simp
    finally show ?thesis using True by (simp add: consumeEscaped_def Let_def)
  qed
  with \<open>cs = d # ds\<close> show "(snd (consumeEscaped d ds), c # cs) \<in> measure length" by simp
qed simp_all

text \<open>
  The value that the selector \<open>[data-skill="..."]\<close> compares the attribute with.
  \<open>None\<close>: the text is not a selector of this shape (or is no selector at all, as
  with a bad string, on which \<open>querySelectorAll\<close> throws). The end of the input closes
  an open string and an open bracket.
\<close>

definition dq :: jsstring where
  "dq = [cu CHR 0x22]"

definition attributeSelectorValue :: "jsstring \<Rightarrow> jsstring option" where
  "attributeSelectorValue selector =
     (let inp = cssPreprocess selector;
          opening = str ''[data-skill='' @ dq
      in if take (length opening) inp \<noteq> opening then None
         else case consumeString (drop (length opening) inp) of
                None \<Rightarrow> None
              | Some (v, rest) \<Rightarrow> if rest = [] \<or> rest = str '']'' then Some v else None)"

text \<open>
  The elements of the document as far as skills go: the \<open>data-skill\<close> attribute
  (\<open>None\<close> when absent) and the class list. \<open>querySelectorAll\<close> returns the
  positions of the matching elements in document order, or throws (\<open>None\<close>).
\<close>

record tag =
  data_skill :: "jsstring option"
  tag_classList :: "jsstring list"

definition querySelectorAll :: "jsstring \<Rightarrow> tag list \<Rightarrow> nat list option" where
  "querySelectorAll selector doc =
     (case attributeSelectorValue selector of
        None \<Rightarrow> None
      | Some v \<Rightarrow> Some (filter (\<lambda>i. data_skill (doc ! i) = Some v) [0..<length doc]))"

subsection \<open>\<open>highlightSkill\<close>\<close>

text \<open>
  The outcome of \<open>highlightSkill\<close>: the document when the function returns, or the
  document at the moment an exception leaves it (URIError from
  \<open>encodeURIComponent\<close>, SyntaxError from \<open>querySelectorAll\<close>).
\<close>

datatype highlighting = Returned "tag list" | Thrown "tag list"

definition setHighlighted :: "bool \<Rightarrow> tag \<Rightarrow> tag" where
  "setHighlighted isHovering e =
     e\<lparr>tag_classList :=
         (if isHovering then classList_add (str ''skill-highlighted'') (tag_classList e)
          else classList_remove (str ''skill-highlighted'') (tag_classList e))\<rparr>"

fun highlightEach :: "bool \<Rightarrow> bool \<Rightarrow> jsstring list \<Rightarrow> tag list \<Rightarrow> highlighting" where
  "highlightEach cssAvailable isHovering [] doc = Returned doc"
| "highlightEach cssAvailable isHovering (skill # skills) doc =
     (case normalizeSkillKey skill of
        None \<Rightarrow> Thrown doc
      | Some skillKey \<Rightarrow>
          let escapedKey = safeCssEscape cssAvailable (Some skillKey) in
          case querySelectorAll (str ''[data-skill='' @ dq @ escapedKey @ dq @ str '']'') doc of
            None \<Rightarrow> Thrown doc
          | Some skillElements \<Rightarrow>
              highlightEach cssAvailable isHovering skills
                (foldl (\<lambda>d i. d[i := setHighlighted isHovering (d ! i)]) doc skillElements))"

text \<open>
  \<open>highlightSkill(projectElement, skillList, isHovering)\<close>: \<open>hasElement\<close> says that
  \<open>projectElement\<close> is not null, \<open>None\<close> is a null or undefined list.
\<close>

definition highlightSkill ::
  "bool \<Rightarrow> bool \<Rightarrow> jsstring list option \<Rightarrow> bool \<Rightarrow> tag list \<Rightarrow> highlighting" where
  "highlightSkill cssAvailable hasElement skillList isHovering doc =
     (case skillList of
        None \<Rightarrow> Returned doc
      | Some skills \<Rightarrow>
          if \<not> hasElement \<or> skills = [] then Returned doc
          else highlightEach cssAvailable isHovering skills doc)"

section \<open>Project cards: \<open>developProject\<close>\<close>

text \<open>
  One skill tag of a card:
  \<open><span class="skill-tag" data-skill="${skillKey}">${safeText}</span>\<close>.
  \<open>None\<close>: \<open>normalizeSkillKey\<close> threw.
\<close>

definition skillSpan :: "jsstring \<Rightarrow> jsstring option" where
  "skillSpan skill =
     (let safeText = escapeHtml (Some skill) in
      case normalizeSkillKey skill of
        None \<Rightarrow> None
      | Some skillKey \<Rightarrow>
          Some (str ''<span class='' @ dq @ str ''skill-tag'' @ dq @ str '' data-skill='' @ dq @
                skillKey @ dq @ str ''>'' @ safeText @ str ''</span>''))"

fun skillSpans :: "jsstring list \<Rightarrow> jsstring option" where
  "skillSpans [] = Some []"
| "skillSpans (skill # skills) =
     (case skillSpan skill of
        None \<Rightarrow> None
      | Some h \<Rightarrow> map_option (\<lambda>r. h @ r) (skillSpans skills))"

text \<open>
  The result of \<open>developProject\<close>: the markup; the empty string after a message on
  \<open>console.error\<close>; or an exception. The arguments \<open>category\<close>,
  \<open>shortInfo\<close> and \<open>longInfo\<close> are \<open>None\<close> when they are not strings, and
  \<open>skillList\<close> when it is not an array. \<open>uniqueId\<close> is what
  \<open>crypto.randomUUID()\<close>, or the clock and the counter, gave.
\<close>

datatype rendering = Markup jsstring | Refused jsstring | Raised

definition nl :: "nat \<Rightarrow> jsstring" where
  "nl n = 10 # replicate n 32"

text \<open>The template literal \<open>html\<close> of \<open>developProject\<close>.\<close>

definition projectMarkup ::
  "jsstring \<Rightarrow> jsstring \<Rightarrow> jsstring \<Rightarrow> jsstring \<Rightarrow> jsstring \<Rightarrow> jsstring \<Rightarrow> jsstring \<Rightarrow>
   jsstring" where
  "projectMarkup projectId sizeCls bigText escapedCategory typeLabel escapedContent skillsHtml =
     nl 8 @ str ''<div id='' @ dq @ projectId @ dq @ str '' class='' @ dq @
       str ''project-box '' @ sizeCls @ dq @ str '' data-expanded='' @ dq @ bigText @ dq @
       str '' data-toggle='' @ dq @ str ''project'' @ dq @ str ''>'' @
     nl 12 @ str ''<div class='' @ dq @ str ''project-header'' @ dq @ str ''>'' @
     nl 16 @ str ''<h3 class='' @ dq @ str ''project-title'' @ dq @ str ''>'' @
       escapedCategory @ str ''</h3>'' @
     nl 16 @ str ''<span class='' @ dq @ str ''project-type'' @ dq @ str ''>'' @
       typeLabel @ str ''</span>'' @
     nl 12 @ str ''</div>'' @
     nl 12 @ str ''<div class='' @ dq @ str ''project-content'' @ dq @ str ''>'' @
     nl 16 @ escapedContent @
     nl 12 @ str ''</div>'' @
     nl 12 @ skillsHtml @
     nl 8 @ str ''</div>'' @
     nl 4"

definition developProject ::
  "int \<Rightarrow> int \<Rightarrow> jsstring option \<Rightarrow> jsstring option \<Rightarrow> jsstring option \<Rightarrow>
   jsstring list option \<Rightarrow> jsstring \<Rightarrow> rendering" where
  "developProject big type category shortInfo longInfo skillList uniqueId =
     (if big \<noteq> 1 \<and> big \<noteq> 0
        then Refused (str ''Invalid size parameter. Use PROJECT_STATE.LARGE or PROJECT_STATE.SMALL'')
      else if type \<noteq> 1 \<and> type \<noteq> 0
        then Refused (str ''Invalid type parameter. Use PROJECT_TYPE.PERSONAL or PROJECT_TYPE.SCHOOL'')
      else if falsy category then Refused (str ''Category is required and must be a string'')
      else if falsy shortInfo then Refused (str ''Short info is required and must be a string'')
      else if falsy longInfo then Refused (str ''Long info is required and must be a string'')
      else case skillList of
        None \<Rightarrow> Refused (str ''Skill list must be an array'')
      | Some skills \<Rightarrow>
          let projectId = str ''project-'' @ uniqueId;
              content = (if big = 1 then longInfo else shortInfo);
              typeLabel = (if type = 1 then str ''Personal Project'' else str ''School Project'');
              escapedCategory = escapeHtml category;
              escapedContent = escapeHtml content
          in case (if skills \<noteq> []
                   then map_option (\<lambda>h. str ''<div class='' @ dq @ str ''skills-container'' @ dq @
                                          str ''>'' @ h @ str ''</div>'')
                          (skillSpans skills)
                   else Some [])
             of None \<Rightarrow> Raised
              | Some skillsHtml \<Rightarrow>
                  Markup (projectMarkup projectId (sizeClass big)
                            (if big = 1 then str ''1'' else str ''0'')
                            escapedCategory typeLabel escapedContent skillsHtml))"

section \<open>Alphabets used in the proofs about skill keys\<close>

text \<open>
  The characters a key can hold (what \<open>encodeURIComponent\<close> can write), and the
  characters that the preprocessing of CSS input leaves alone.
\<close>

definition isKeyChar :: "nat \<Rightarrow> bool" where
  "isKeyChar c \<longleftrightarrow> isUnreserved c \<or> c = cu CHR ''%''"

definition cssClean :: "nat \<Rightarrow> bool" where
  "cssClean c \<longleftrightarrow> c \<noteq> 0 \<and> c \<noteq> 12 \<and> c \<noteq> 13"

section \<open>The earlier copy of the functions in \<open>portfolio.js\<close>\<close>

text \<open>
  \<open>portfolio.js\<close> holds its functions twice: an earlier copy at the head of the file,
  and version 2.0.0, which the modules repeat function by function. The definitions so
  far are those of version 2.0.0. The functions of the earlier copy that the properties
  below are about follow, with the suffix \<open>_v1\<close>.
\<close>

subsection \<open>\<open>toggleProjectBox\<close>\<close>

text \<open>
  The earlier \<open>toggleProjectBox\<close> removes one size class and then adds the other,
  where version 2.0.0 calls \<open>classList.toggle\<close> twice.
\<close>

definition toggleProjectBox_v1 :: "element option \<Rightarrow> element option" where
  "toggleProjectBox_v1 projectElement =
     (case projectElement of
        None \<Rightarrow> None
      | Some e \<Rightarrow>
          let isExpanded = (dataset_expanded e = Some (str ''1''));
              e1 = e\<lparr>dataset_expanded := Some (if isExpanded then str ''0'' else str ''1'')\<rparr>
          in if isExpanded
             then Some (e1\<lparr>classList :=
                    classList_add (str ''project-small'')
                      (classList_remove (str ''project-large'') (classList e1))\<rparr>)
             else Some (e1\<lparr>classList :=
                    classList_add (str ''project-large'')
                      (classList_remove (str ''project-small'') (classList e1))\<rparr>))"

subsection \<open>\<open>escapeHtml\<close>\<close>

text \<open>
  An exception raised by a call is a value of the result: \<open>Inl TypeError\<close>.
\<close>

datatype exception = TypeError

text \<open>
  The earlier \<open>escapeHtml(text)\<close> calls \<open>text.replace\<close> on its argument as it is.
  On null or undefined that property access raises TypeError.
\<close>

definition escapeHtml_v1 :: "jsstring option \<Rightarrow> exception + jsstring" where
  "escapeHtml_v1 text =
     (case text of
        None \<Rightarrow> Inl TypeError
      | Some t \<Rightarrow> Inr (replaceEach isHtmlSpecial entityOf t))"

subsection \<open>\<open>isValidEmail\<close>, \<open>isValidPhoneNumber\<close>\<close>

text \<open>
  The earlier \<open>isValidEmail\<close> is \<open>emailRegex.test(email)\<close>, without a trim;
  \<open>test\<close> converts its argument to a string.
\<close>

definition isValidEmail_v1 :: "jsstring option \<Rightarrow> bool" where
  "isValidEmail_v1 addr = matches emailRegex (text_of addr)"

text \<open>
  \<open>phone.replace(/[\s\-\.]/g, '')\<close> and
  \<open>/^(\+33|0)[1-9](?:[0-9]{8})$|^\+(?:[0-9]{1,3})?[0-9]{6,14}$/\<close>
\<close>

definition isPhoneSeparator_v1 :: "nat \<Rightarrow> bool" where
  "isPhoneSeparator_v1 c \<longleftrightarrow> isWhiteSpace c \<or> c = cu CHR ''-'' \<or> c = cu CHR ''.''"

definition phoneRegex_v1 :: rexp where
  "phoneRegex_v1 =
     Alt (Cat (Alt (Cat (Lit CHR ''+'') (Cat (Lit CHR ''3'') (Lit CHR ''3''))) (Lit CHR ''0''))
            (Cat (Cls isDigit19) (rep 8 (Cls isDigit))))
         (Cat (Lit CHR ''+'')
            (Cat (Alt (repRange 1 3 (Cls isDigit)) Eps) (repRange 6 14 (Cls isDigit))))"

definition isValidPhoneNumber_v1 :: "jsstring \<Rightarrow> bool" where
  "isValidPhoneNumber_v1 phone =
     matches phoneRegex_v1 (replaceEach isPhoneSeparator_v1 (\<lambda>c. []) phone)"

subsection \<open>\<open>sendEmail\<close>\<close>

text \<open>
  The earlier \<open>sendEmail\<close> builds its body with a template literal, whose line breaks
  and indentation are part of the text, and keeps its calls of the EmailJS API inside a
  comment. It reads neither the global \<open>emailjs\<close> nor the hostname, and its three
  credential constants are not used. A sender address or phone number may be null or
  undefined (\<open>None\<close>). The notification text holds the three characters U+00E2, U+20AC
  and U+201D where version 2.0.0 has a dash.
\<close>

definition previewMessage_v1 :: jsstring where
  "previewMessage_v1 =
     str ''Preview only '' @ [226, 8364, 8221] @
     str '' no email was sent. EmailJS is not configured.''"

definition emailContent_v1 :: "jsstring \<Rightarrow> jsstring option \<Rightarrow> jsstring option \<Rightarrow> jsstring" where
  "emailContent_v1 = (\<lambda>content senderEmail senderPhone.
     nl 8 @ content @ nl 8 @ nl 8 @ str ''---'' @ nl 8 @ str ''Contact Information:'' @
     nl 8 @ (if \<not> falsy senderEmail then str ''Email: '' @ text_of senderEmail else []) @
     nl 8 @ (if \<not> falsy senderPhone then str ''Phone: '' @ text_of senderPhone else []) @
     nl 4)"

definition sendEmail_v1 ::
  "jsstring \<Rightarrow> jsstring \<Rightarrow> jsstring \<Rightarrow> jsstring option \<Rightarrow> jsstring option \<Rightarrow> effect list" where
  "sendEmail_v1 = (\<lambda>target title content senderEmail senderPhone.
     let emailContent = emailContent_v1 content senderEmail senderPhone
     in [ConsoleLog (str ''Email would be sent with the following content:''),
         ConsoleLogPayload target title emailContent,
         ShowInfo previewMessage_v1])"

subsection \<open>\<open>validateContactForm\<close>\<close>

text \<open>
  The earlier \<open>validateContactForm\<close> returns a boolean. When every rule passes it
  calls \<open>sendEmail\<close> itself and returns \<open>true\<close>. The result is the effects of the
  call and the value returned. \<open>contactRules_v1\<close> is its rule sequence, the one of
  version 2.0.0 with the earlier two format tests.
\<close>

definition contactRules_v1 ::
  "jsstring option \<Rightarrow> jsstring option \<Rightarrow> jsstring option \<Rightarrow> jsstring option \<Rightarrow>
   (bool \<times> jsstring) list" where
  "contactRules_v1 n e p c =
     [(\<not> blank n, str ''Name is required''),
      (\<not> blank c, str ''Company is required''),
      (\<not> (blank e \<and> blank p), str ''Please provide either an email or phone number''),
      (blank e \<or> isValidEmail_v1 e, str ''Please provide a valid email address''),
      (blank p \<or> isValidPhoneNumber_v1 (text_of p),
       str ''Please provide a valid phone number (French +33 or international format)'')]"

definition defaultComment_v1 :: "jsstring \<Rightarrow> jsstring \<Rightarrow> jsstring" where
  "defaultComment_v1 ns cs = ns @ str '' from '' @ cs @ str '' was interested by your portfolio''"

definition validateContactForm_v1 ::
  "jsstring option \<Rightarrow> jsstring option \<Rightarrow> jsstring option \<Rightarrow> jsstring option \<Rightarrow>
   jsstring option \<Rightarrow> effect list \<times> bool" where
  "validateContactForm_v1 = (\<lambda>name email phoneNumber company comment.
      if blank name then ([ShowError (str ''Name is required'')], False)
      else if blank company then ([ShowError (str ''Company is required'')], False)
      else if blank email \<and> blank phoneNumber
        then ([ShowError (str ''Please provide either an email or phone number'')], False)
      else if \<not> blank email \<and> \<not> isValidEmail_v1 email
        then ([ShowError (str ''Please provide a valid email address'')], False)
      else if \<not> blank phoneNumber \<and> \<not> isValidPhoneNumber_v1 (text_of phoneNumber)
        then ([ShowError
          (str ''Please provide a valid phone number (French +33 or international format)'')],
          False)
      else
        let finalComment =
              (if \<not> blank comment then text_of comment
               else text_of name @ str '' from '' @ text_of company @
                    str '' was interested by your portfolio'')
        in (sendEmail_v1 (str ''alexis.r.beriot@gmail.com'')
              (text_of name @ str '' - '' @ text_of company) finalComment email phoneNumber,
            True))"

subsection \<open>\<open>switchLanguage\<close>\<close>

text \<open>
  The earlier \<open>switchLanguage(lang)\<close> works on \<open>window.location.pathname\<close>, here
  \<open>currentUrl\<close>. Every \<open>lang\<close> other than 1 is the French switch. The string
  assigned to \<open>window.location.href\<close> is the new path alone.
\<close>

definition switchLanguage_v1 :: "int \<Rightarrow> jsstring \<Rightarrow> navigation" where
  "switchLanguage_v1 lang currentUrl =
     (let newUrl =
            (if lang = 1 then removeFr currentUrl
             else if \<not> testFrHtml currentUrl then insertFr currentUrl
             else currentUrl)
      in if newUrl \<noteq> currentUrl then Navigate newUrl else NoNavigation)"

subsection \<open>\<open>showError\<close>, \<open>showSuccess\<close>, \<open>showInfo\<close>\<close>

text \<open>
  The earlier copy has three functions of one shape, which differ in the id and class
  of their element only; \<open>showKind_v1\<close> is that shape. The element is the one of the
  document with the id, or a new one, which is then inserted in front of the body's
  first child; without a body that insertion raises TypeError. The element
  gets its id, class and text and is displayed, and a timer is set that hides it after
  5000 ms. No timer is cleared, and the table \<open>messageTimers\<close> does not exist.
\<close>

definition showKind_v1 :: "kind \<Rightarrow> jsstring \<Rightarrow> page \<Rightarrow> exception + page" where
  "showKind_v1 k msg s =
     (let ident = typeName k @ str ''-message'' in
      case getElementById s ident of
        Some i \<Rightarrow>
          let s1 = s\<lparr>divs := (divs s)[i := (divs s ! i)\<lparr>div_id := ident, div_className := ident,
                        textContent := msg, display := str ''block''\<rparr>]\<rparr>
          in Inr (snd (setTimeout i 5000 s1))
      | None \<Rightarrow>
          let i = length (divs s);
              d = \<lparr>div_id = ident, div_className = ident, div_role = [], div_ariaLive = [],
                   textContent = msg, display = str ''block''\<rparr>;
              s1 = s\<lparr>divs := divs s @ [d]\<rparr>
          in if bodyReady s1
             then Inr (snd (setTimeout i 5000 (s1\<lparr>bodyChildren := i # bodyChildren s1\<rparr>)))
             else Inl TypeError)"

definition showError_v1 :: "jsstring \<Rightarrow> page \<Rightarrow> exception + page" where
  "showError_v1 msg = showKind_v1 ErrorKind msg"

definition showSuccess_v1 :: "jsstring \<Rightarrow> page \<Rightarrow> exception + page" where
  "showSuccess_v1 msg = showKind_v1 SuccessKind msg"

definition showInfo_v1 :: "jsstring \<Rightarrow> page \<Rightarrow> exception + page" where
  "showInfo_v1 msg = showKind_v1 InfoKind msg"

text \<open>
  What can happen to a page that loads the earlier copy, and the states it can reach. A
  call that raises leaves the page as it was.
\<close>

datatype event_v1 =
    ShowError_v1 jsstring
  | ShowSuccess_v1 jsstring
  | ShowInfo_v1 jsstring
  | BodyParsed_v1
  | Elapse_v1 nat

fun step_v1 :: "event_v1 \<Rightarrow> page \<Rightarrow> page" where
  "step_v1 (ShowError_v1 msg) s = (case showError_v1 msg s of Inr s' \<Rightarrow> s' | Inl e \<Rightarrow> s)"
| "step_v1 (ShowSuccess_v1 msg) s = (case showSuccess_v1 msg s of Inr s' \<Rightarrow> s' | Inl e \<Rightarrow> s)"
| "step_v1 (ShowInfo_v1 msg) s = (case showInfo_v1 msg s of Inr s' \<Rightarrow> s' | Inl e \<Rightarrow> s)"
| "step_v1 BodyParsed_v1 s = s\<lparr>bodyReady := True\<rparr>"
| "step_v1 (Elapse_v1 dt) s = elapse dt s"

definition run_v1 :: "event_v1 list \<Rightarrow> page" where
  "run_v1 es = foldl (\<lambda>s e. step_v1 e s) initialPage es"

inductive reachable_v1 :: "page \<Rightarrow> bool" where
  reachable_v1_init: "reachable_v1 initialPage"
| reachable_v1_step: "reachable_v1 s \<Longrightarrow> reachable_v1 (step_v1 e s)"

text \<open>
  The invariant of these states: pending timers and the children of the body refer to
  elements that exist.
\<close>

definition wellFormed_v1 :: "page \<Rightarrow> bool" where
  "wellFormed_v1 s \<longleftrightarrow>
     list_all (\<lambda>t. timer_div t < length (divs s)) (pending s) \<and>
     list_all (\<lambda>i. i < length (divs s)) (bodyChildren s)"

section \<open>Properties of \<open>toggleProjectBox\<close>\<close>

lemma size_tokens_distinct:
  "str ''project-large'' \<noteq> str ''project-small''"
  "str ''1'' \<noteq> str ''0''"
  by (simp_all add: str_def)

lemma set_classList_toggle:
  "set (classList_toggle tok force cl) = (if force then insert tok (set cl) else set cl - {tok})"
  by (auto simp: classList_toggle_def classList_add_def classList_remove_def)

lemma cardRoot_sizeConsistent: "sizeConsistent (cardRoot big)"
  using size_tokens_distinct
  by (auto simp: sizeConsistent_def cardRoot_def sizeClass_def str_def)

text \<open>
  C7. toggleProjectBox is its own inverse on rendered cards: for a size-consistent card,
  one call flips data-expanded between '1' and '0' and swaps project-large and
  project-small, leaving every other class alone; two calls give back the original
  data-expanded and the original set of classes. On a null reference it does nothing.
\<close>

theorem toggleProjectBox_involution:
  assumes "sizeConsistent e"
  shows "toggleProjectBox None = None
    \<and> (\<exists>e1 e2. toggleProjectBox (Some e) = Some e1 \<and> toggleProjectBox (Some e1) = Some e2
        \<and> dataset_expanded e1 =
            Some (if dataset_expanded e = Some (str ''1'') then str ''0'' else str ''1'')
        \<and> set (classList e1) =
            (if dataset_expanded e = Some (str ''1'')
             then insert (str ''project-small'') (set (classList e) - {str ''project-large''})
             else insert (str ''project-large'') (set (classList e) - {str ''project-small''}))
        \<and> sizeConsistent e1
        \<and> dataset_expanded e2 = dataset_expanded e
        \<and> set (classList e2) = set (classList e))"
proof -
  note d = size_tokens_distinct
  have none: "toggleProjectBox None = None"
    by (simp add: toggleProjectBox_def)
  from assms consider
      (large) "dataset_expanded e = Some (str ''1'')" "str ''project-large'' \<in> set (classList e)"
        "str ''project-small'' \<notin> set (classList e)"
    | (small) "dataset_expanded e = Some (str ''0'')" "str ''project-small'' \<in> set (classList e)"
        "str ''project-large'' \<notin> set (classList e)"
    unfolding sizeConsistent_def by blast
  then have "\<exists>e1 e2. toggleProjectBox (Some e) = Some e1 \<and> toggleProjectBox (Some e1) = Some e2
        \<and> dataset_expanded e1 =
            Some (if dataset_expanded e = Some (str ''1'') then str ''0'' else str ''1'')
        \<and> set (classList e1) =
            (if dataset_expanded e = Some (str ''1'')
             then insert (str ''project-small'') (set (classList e) - {str ''project-large''})
             else insert (str ''project-large'') (set (classList e) - {str ''project-small''}))
        \<and> sizeConsistent e1
        \<and> dataset_expanded e2 = dataset_expanded e
        \<and> set (classList e2) = set (classList e)"
  proof cases
    case large
    then show ?thesis
      using d by (auto simp: toggleProjectBox_def Let_def set_classList_toggle sizeConsistent_def)
  next
    case small
    then show ?thesis
      using d by (auto simp: toggleProjectBox_def Let_def set_classList_toggle sizeConsistent_def)
  qed
  with none show ?thesis by blast
qed

theorem toggleProjectBox_involution_witness:
  "sizeConsistent (cardRoot 1)
   \<and> toggleProjectBox (Some (cardRoot 1)) =
       Some \<lparr>dataset_expanded = Some (str ''0''),
             classList = [str ''project-box'', str ''project-small'']\<rparr>
   \<and> toggleProjectBox (toggleProjectBox (Some (cardRoot 1))) = Some (cardRoot 1)"
proof -
  have c: "sizeConsistent (cardRoot 1)"
    by (rule cardRoot_sizeConsistent)
  from toggleProjectBox_involution [OF c] have "toggleProjectBox None = None" by blast
  moreover have "toggleProjectBox (Some (cardRoot 1)) =
       Some \<lparr>dataset_expanded = Some (str ''0''),
             classList = [str ''project-box'', str ''project-small'']\<rparr>"
    by (simp add: toggleProjectBox_def cardRoot_def sizeClass_def Let_def classList_toggle_def
        classList_add_def classList_remove_def str_def)
  moreover have "toggleProjectBox (Some \<lparr>dataset_expanded = Some (str ''0''),
             classList = [str ''project-box'', str ''project-small'']\<rparr>) = Some (cardRoot 1)"
    by (simp add: toggleProjectBox_def cardRoot_def sizeClass_def Let_def classList_toggle_def
        classList_add_def classList_remove_def str_def)
  ultimately show ?thesis using c by simp
qed

text \<open>
  C10. After one call of toggleProjectBox on a non-null element, whatever its earlier
  data-expanded (absent and malformed values included) and whatever classes it carried,
  data-expanded is exactly '0' or '1', exactly one of project-large and project-small is
  present, and project-large is present if and only if data-expanded is '1'.
\<close>

theorem toggleProjectBox_establishes_invariant:
  "case toggleProjectBox (Some e) of
     None \<Rightarrow> False
   | Some e' \<Rightarrow>
       (dataset_expanded e' = Some (str ''0'') \<or> dataset_expanded e' = Some (str ''1''))
       \<and> (str ''project-large'' \<in> set (classList e')) = (dataset_expanded e' = Some (str ''1''))
       \<and> (str ''project-small'' \<in> set (classList e')) = (str ''project-large'' \<notin> set (classList e'))
       \<and> sizeConsistent e'"
  using size_tokens_distinct
  by (auto simp: toggleProjectBox_def Let_def set_classList_toggle sizeConsistent_def)

text \<open>
  The earlier toggleProjectBox does to every element what the one of version 2.0.0 does,
  so the two properties above hold of it as well.
\<close>

lemma toggleProjectBox_v1_same: "toggleProjectBox_v1 x = toggleProjectBox x"
proof (cases x)
  case None
  then show ?thesis by (simp add: toggleProjectBox_v1_def toggleProjectBox_def)
next
  case (Some e)
  have ne: "str ''project-large'' \<noteq> str ''project-small''" by (simp add: str_def)
  have swap: "classList_remove a (classList_add b cl) = classList_add b (classList_remove a cl)"
    if "a \<noteq> b" for a b :: jsstring and cl
    using that by (auto simp: classList_add_def classList_remove_def)
  show ?thesis
  proof (cases "dataset_expanded e = Some (str ''1'')")
    case True
    with Some show ?thesis
      by (simp add: toggleProjectBox_v1_def toggleProjectBox_def classList_toggle_def Let_def)
  next
    case False
    with Some swap [of "str ''project-small''" "str ''project-large''" "classList e"] ne
    show ?thesis
      by (simp add: toggleProjectBox_v1_def toggleProjectBox_def classList_toggle_def Let_def)
  qed
qed

section \<open>Evaluation of the model on concrete inputs\<close>

lemma rep_numeral [simp]: "rep (numeral k) r = Cat r (rep (pred_numeral k) r)"
  by (simp add: numeral_eq_Suc)

lemma repUpto_numeral [simp]: "repUpto (numeral k) r = Alt Eps (Cat r (repUpto (pred_numeral k) r))"
  by (simp add: numeral_eq_Suc)

lemma rep_1 [simp]: "rep 1 r = Cat r Eps" using rep.simps(2) [of 0 r] by simp
lemma repUpto_1 [simp]: "repUpto 1 r = Alt Eps (Cat r Eps)" using repUpto.simps(2) [of 0 r] by simp

lemma replicate_numeral_Cons: "replicate (numeral k) c = c # replicate (pred_numeral k) c"
  by (simp add: numeral_eq_Suc)

lemmas js_eval = str_def cu_def isWhiteSpace_def trim_def falsy_def blank_def text_of_def
  isValidEmail_def emailRegex_def notSpaceAt_def plus1_def Lit_def
  isValidPhoneNumber_def phoneRegex_def isDigit_def isDigit19_def isPhoneSeparator_def repRange_def
  validateContactForm_def reject_def Let_def

section \<open>Properties of \<open>trim\<close>\<close>

lemma trim_Nil: "trim [] = []" by (simp add: trim_def)

lemma trim_idem: "trim (trim s) = trim s"
proof -
  define d where "d = dropWhile isWhiteSpace s"
  define t where "t = trim s"
  have t: "rev t = dropWhile isWhiteSpace (rev d)" by (simp add: t_def d_def trim_def)
  have revt: "dropWhile isWhiteSpace (rev t) = rev t" by (simp add: t)
  have "dropWhile isWhiteSpace t = t"
  proof (cases "t = []")
    case True then show ?thesis by simp
  next
    case False
    have "rev d = takeWhile isWhiteSpace (rev d) @ rev t"
      using takeWhile_dropWhile_id [of isWhiteSpace "rev d"] t by simp
    then have "rev (rev d) = rev (takeWhile isWhiteSpace (rev d) @ rev t)" by simp
    then have dd: "d = t @ rev (takeWhile isWhiteSpace (rev d))" by simp
    with False have "hd d = hd t" by (metis hd_append2)
    moreover from dd False have "d \<noteq> []" by auto
    then have "\<not> isWhiteSpace (hd d)" unfolding d_def by (rule hd_dropWhile)
    ultimately show ?thesis using False by (cases t) auto
  qed
  with revt show ?thesis unfolding t_def [symmetric] by (simp add: trim_def)
qed

section \<open>Properties of \<open>escapeHtml\<close>\<close>

lemma isHtmlSpecial_cases:
  "isHtmlSpecial c \<longleftrightarrow> c = 38 \<or> c = 60 \<or> c = 62 \<or> c = 34 \<or> c = 39"
  by (simp add: isHtmlSpecial_def cu_def)

lemma entityOf_special:
  assumes "isHtmlSpecial c"
  shows "entityOf c \<in> set (map snd htmlEntities)"
    and "entityOf c \<noteq> []"
    and "hd (entityOf c) = cu CHR ''&''"
    and "list_all (\<lambda>c. \<not> isHtmlSpecial c) (tl (entityOf c))"
  using assms unfolding isHtmlSpecial_cases
  by (auto simp: entityOf_def htmlEntities_def str_def cu_def isHtmlSpecial_cases)

lemma replaceEach_append:
  "replaceEach P f (s @ t) = replaceEach P f s @ replaceEach P f t"
  by (induction s) simp_all

lemma entityAt_shift: "entityAt (p @ r) (length p + j) = entityAt r j"
  by (simp add: entityAt_def)

lemma entityAt_prefix: "e \<in> set (map snd htmlEntities) \<Longrightarrow> entityAt (e @ r) 0"
  unfolding entityAt_def list_ex_iff by (rule bexI [where x = e]) simp_all

lemma escaped_chars:
  "list_all (\<lambda>c. c = cu CHR ''&'' \<or> \<not> isHtmlSpecial c) (replaceEach isHtmlSpecial entityOf s)"
proof (induction s)
  case Nil
  show ?case by simp
next
  case (Cons c s)
  show ?case
  proof (cases "isHtmlSpecial c")
    case True
    from entityOf_special(2,3,4) [OF True]
    have "list_all (\<lambda>c. c = cu CHR ''&'' \<or> \<not> isHtmlSpecial c) (entityOf c)"
      by (cases "entityOf c") (auto simp: list_all_iff)
    with True Cons.IH show ?thesis by simp
  next
    case False
    with Cons.IH show ?thesis by simp
  qed
qed

lemma escaped_ampersands:
  "i < length (replaceEach isHtmlSpecial entityOf s) \<Longrightarrow>
   replaceEach isHtmlSpecial entityOf s ! i = cu CHR ''&'' \<Longrightarrow>
   entityAt (replaceEach isHtmlSpecial entityOf s) i"
proof (induction s arbitrary: i)
  case Nil
  then show ?case by simp
next
  case (Cons c s)
  define piece where "piece = (if isHtmlSpecial c then entityOf c else [c])"
  define rest where "rest = replaceEach isHtmlSpecial entityOf s"
  have out: "replaceEach isHtmlSpecial entityOf (c # s) = piece @ rest"
    by (simp add: piece_def rest_def)
  show ?case
  proof (cases "i < length piece")
    case True
    from Cons.prems(2) have "(piece @ rest) ! i = cu CHR ''&''"
      unfolding out .
    with True have at: "piece ! i = cu CHR ''&''"
      by (simp add: nth_append)
    have sp: "isHtmlSpecial c"
    proof (rule ccontr)
      assume "\<not> isHtmlSpecial c"
      with True at have "c = cu CHR ''&''" by (simp add: piece_def)
      with \<open>\<not> isHtmlSpecial c\<close> show False by (simp add: isHtmlSpecial_def)
    qed
    then have piece: "piece = entityOf c" by (simp add: piece_def)
    have "i = 0"
    proof (rule ccontr)
      assume "i \<noteq> 0"
      then obtain j where j: "i = Suc j" by (cases i) auto
      from entityOf_special(2) [OF sp] obtain a as where as: "entityOf c = a # as"
        by (cases "entityOf c") auto
      with True j piece have "j < length as" by simp
      moreover from entityOf_special(4) [OF sp] as have "list_all (\<lambda>c. \<not> isHtmlSpecial c) as"
        by simp
      ultimately have "\<not> isHtmlSpecial (as ! j)" by (simp add: list_all_length)
      moreover from at piece as j have "as ! j = cu CHR ''&''" by simp
      ultimately show False by (simp add: isHtmlSpecial_def)
    qed
    with entityAt_prefix [OF entityOf_special(1) [OF sp], of rest] show ?thesis
      unfolding out piece by simp
  next
    case False
    then obtain j where j: "i = length piece + j"
      using le_Suc_ex not_less by blast
    from Cons.prems have "i < length (piece @ rest)" "(piece @ rest) ! i = cu CHR ''&''"
      unfolding out by blast+
    with j have "j < length rest" "rest ! j = cu CHR ''&''"
      by (simp_all add: nth_append)
    then have "entityAt rest j" unfolding rest_def by (rule Cons.IH)
    then show ?thesis unfolding out j by (simp only: entityAt_shift)
  qed
qed

lemma noRawSpecial_escapeHtml: "noRawSpecial (escapeHtml x)"
proof -
  define out where "out = escapeHtml x"
  obtain s where out: "out = replaceEach isHtmlSpecial entityOf s"
    by (simp add: out_def escapeHtml_def)
  have "list_all (\<lambda>i. out ! i \<noteq> cu CHR ''&'' \<or> entityAt out i) [0..<length out]"
    unfolding out using escaped_ampersands by (auto simp: list_all_iff)
  moreover have "list_all (\<lambda>c. c = cu CHR ''&'' \<or> \<not> isHtmlSpecial c) out"
    unfolding out by (rule escaped_chars)
  ultimately show ?thesis unfolding out_def noRawSpecial_def by simp
qed

text \<open>
  C3 (as amended). On every string, both copies of escapeHtml return the same text: each
  of the five characters & < > " ' becomes its entity, every other character is kept,
  and the work is done character by character. The output holds no raw HTML-significant
  character: the characters < > " ' do not occur in it, and every & in it is the first
  character of one of the five entities (an ampersand does occur, as the lead-in of each
  entity). The escapeHtml of security.js treats a null or undefined argument as the
  empty string.
\<close>

theorem escapeHtml_correct:
  "escapeHtml None = []
   \<and> escapeHtml (Some [cu CHR ''&'']) = str ''&amp;''
   \<and> escapeHtml (Some [cu CHR ''<'']) = str ''&lt;''
   \<and> escapeHtml (Some [cu CHR ''>'']) = str ''&gt;''
   \<and> escapeHtml (Some [cu CHR 0x22]) = str ''&quot;''
   \<and> escapeHtml (Some [cu CHR 0x27]) = str ''&#039;''
   \<and> (\<not> isHtmlSpecial c \<longrightarrow> escapeHtml (Some [c]) = [c])
   \<and> escapeHtml (Some (s @ t)) = escapeHtml (Some s) @ escapeHtml (Some t)
   \<and> noRawSpecial (escapeHtml x)
   \<and> (\<forall>d \<in> set (escapeHtml x). d \<noteq> cu CHR ''<'' \<and> d \<noteq> cu CHR ''>'' \<and> d \<noteq> cu CHR 0x22 \<and> d \<noteq> cu CHR 0x27)
   \<and> escapeHtml_v1 (Some s) = Inr (escapeHtml (Some s))"
proof -
  have one: "escapeHtml None = []"
    "escapeHtml (Some [cu CHR ''&'']) = str ''&amp;''"
    "escapeHtml (Some [cu CHR ''<'']) = str ''&lt;''"
    "escapeHtml (Some [cu CHR ''>'']) = str ''&gt;''"
    "escapeHtml (Some [cu CHR 0x22]) = str ''&quot;''"
    "escapeHtml (Some [cu CHR 0x27]) = str ''&#039;''"
    by (simp_all add: escapeHtml_def isHtmlSpecial_def entityOf_def htmlEntities_def cu_def str_def)
  have other: "\<not> isHtmlSpecial c \<longrightarrow> escapeHtml (Some [c]) = [c]"
    by (simp add: escapeHtml_def)
  have app: "escapeHtml (Some (s @ t)) = escapeHtml (Some s) @ escapeHtml (Some t)"
    by (simp add: escapeHtml_def replaceEach_append)
  have raw: "noRawSpecial (escapeHtml x)" by (rule noRawSpecial_escapeHtml)
  then have "list_all (\<lambda>c. c = cu CHR ''&'' \<or> \<not> isHtmlSpecial c) (escapeHtml x)"
    by (simp add: noRawSpecial_def)
  then have none: "\<forall>d \<in> set (escapeHtml x). d \<noteq> cu CHR ''<'' \<and> d \<noteq> cu CHR ''>'' \<and> d \<noteq> cu CHR 0x22 \<and> d \<noteq> cu CHR 0x27"
    by (auto simp: list_all_iff isHtmlSpecial_def cu_def)
  have old: "escapeHtml_v1 (Some s) = Inr (escapeHtml (Some s))"
    by (simp add: escapeHtml_v1_def escapeHtml_def)
  from one other app raw none old show ?thesis by simp
qed

theorem escapeHtml_correct_witness:
  "\<not> isHtmlSpecial (cu CHR ''a'')
   \<and> escapeHtml (Some [cu CHR ''a'']) = [cu CHR ''a'']
   \<and> escapeHtml (Some (str ''a<b & c'')) = str ''a&lt;b &amp; c''
   \<and> escapeHtml_v1 (Some (str ''a<b & c'')) = Inr (str ''a&lt;b &amp; c'')
   \<and> noRawSpecial (str ''a&lt;b &amp; c'')
   \<and> cu CHR ''<'' \<notin> set (str ''a&lt;b &amp; c'')
   \<and> cu CHR ''&'' \<in> set (str ''a&lt;b &amp; c'')
   \<and> \<not> noRawSpecial (str ''a<b & c'')"
proof -
  have a: "\<not> isHtmlSpecial (cu CHR ''a'')" by (simp add: isHtmlSpecial_def cu_def)
  have e: "escapeHtml (Some (str ''a<b & c'')) = str ''a&lt;b &amp; c''"
    by (simp add: escapeHtml_def isHtmlSpecial_def entityOf_def htmlEntities_def cu_def str_def)
  from escapeHtml_correct [of "cu CHR ''a''" "str ''a<b & c''" "[]" "Some (str ''a<b & c'')"] a
  have "escapeHtml (Some [cu CHR ''a'']) = [cu CHR ''a'']"
    and "noRawSpecial (escapeHtml (Some (str ''a<b & c'')))"
    and "escapeHtml_v1 (Some (str ''a<b & c'')) = Inr (escapeHtml (Some (str ''a<b & c'')))"
    and "\<forall>d \<in> set (escapeHtml (Some (str ''a<b & c''))). d \<noteq> cu CHR ''<''"
    by simp_all
  moreover have "\<not> noRawSpecial (str ''a<b & c'')"
    by (simp add: noRawSpecial_def isHtmlSpecial_def cu_def str_def)
  moreover have "cu CHR ''&'' \<in> set (str ''a&lt;b &amp; c'')"
    by (simp add: cu_def str_def)
  ultimately show ?thesis using a e by auto
qed

text \<open>
  The claim as stated fails on the earlier escapeHtml, which takes a string: a null or
  undefined argument is not treated as the empty string there, the call raises
  TypeError.
\<close>

theorem escapeHtml_v1_null_raises:
  "escapeHtml_v1 None = Inl TypeError \<and> escapeHtml None = []"
  by (simp add: escapeHtml_v1_def escapeHtml_def)

section \<open>Properties of \<open>validateContactForm\<close>\<close>

lemma msgs_distinct: "distinct (map snd (contactRules n e p c))"
  by (simp add: contactRules_def str_def)

lemma shown_first_failure: "fst (validateContactForm n e p c m) =
      (case firstFailure (contactRules n e p c) of None \<Rightarrow> [] | Some msg \<Rightarrow> [msg])"
  by (auto simp: validateContactForm_def contactRules_def firstFailure_def reject_def Let_def)

lemma returned_first_failure: "(snd (validateContactForm n e p c m) = None) = (firstFailure (contactRules n e p c) \<noteq> None)"
  by (auto simp: validateContactForm_def contactRules_def firstFailure_def reject_def Let_def)

lemma validate_as_first_failure:
  "validateContactForm n e p c m =
     (case firstFailure (contactRules n e p c) of
        Some msg \<Rightarrow> ([msg], None)
      | None \<Rightarrow> ([], snd (validateContactForm n e p c m)))"
  by (auto simp: validateContactForm_def contactRules_def firstFailure_def reject_def Let_def)

lemma find_first_failing:
  "i < length rs \<Longrightarrow> \<not> fst (rs ! i) \<Longrightarrow>
    \<exists>k\<le>i. \<not> fst (rs ! k) \<and> (\<forall>j<k. fst (rs ! j)) \<and> find (\<lambda>r. \<not> fst r) rs = Some (rs ! k)"
proof (induction rs arbitrary: i)
  case Nil then show ?case by simp
next
  case (Cons r rs)
  show ?case
  proof (cases "fst r")
    case False
    then have "\<not> fst ((r # rs) ! 0) \<and> (\<forall>j<0. fst ((r # rs) ! j)) \<and> find (\<lambda>r. \<not> fst r) (r # rs) = Some ((r # rs) ! 0)"
      by simp
    then show ?thesis by blast
  next
    case True
    with Cons.prems obtain i' where i': "i = Suc i'" by (cases i) auto
    with Cons.prems have "i' < length rs" "\<not> fst (rs ! i')" by simp_all
    from Cons.IH [OF this] obtain k where k: "k \<le> i'" "\<not> fst (rs ! k)" "\<forall>j<k. fst (rs ! j)"
      "find (\<lambda>r. \<not> fst r) rs = Some (rs ! k)" by blast
    have "\<forall>j<Suc k. fst ((r # rs) ! j)"
      using True k(3) by (auto simp: less_Suc_eq_0_disj)
    with k True i' have "Suc k \<le> i \<and> \<not> fst ((r # rs) ! Suc k) \<and> (\<forall>j<Suc k. fst ((r # rs) ! j))
       \<and> find (\<lambda>r. \<not> fst r) (r # rs) = Some ((r # rs) ! Suc k)" by simp
    then show ?thesis by blast
  qed
qed

text \<open>
  C1. validateContactForm evaluates its five rules in the fixed order name, company,
  contact method, email format, phone format. The messages it shows and the value it
  returns are those of the first failing rule: it shows exactly that rule's message and
  returns false. A blank name gives the name-required rejection whatever the other
  fields hold, and when a rule fails no later rule's message is produced.
\<close>

theorem validateContactForm_rule_order:
  "fst (validateContactForm n e p c m) =
      (case firstFailure (contactRules n e p c) of None \<Rightarrow> [] | Some msg \<Rightarrow> [msg])
   \<and> (snd (validateContactForm n e p c m) = None) = (firstFailure (contactRules n e p c) \<noteq> None)
   \<and> (blank n \<longrightarrow> validateContactForm n e p c m = ([str ''Name is required''], None))
   \<and> (\<forall>i < length (contactRules n e p c). \<not> fst (contactRules n e p c ! i) \<longrightarrow>
        (\<exists>k\<le>i. \<not> fst (contactRules n e p c ! k) \<and> (\<forall>j<k. fst (contactRules n e p c ! j))
           \<and> validateContactForm n e p c m = ([snd (contactRules n e p c ! k)], None)))
   \<and> (\<forall>i j. i < j \<and> j < length (contactRules n e p c) \<and> \<not> fst (contactRules n e p c ! i) \<longrightarrow>
        fst (validateContactForm n e p c m) \<noteq> [snd (contactRules n e p c ! j)])"
proof -
  define rules where "rules = contactRules n e p c"
  define out where "out = validateContactForm n e p c m"
  have shown: "fst out = (case firstFailure rules of None \<Rightarrow> [] | Some msg \<Rightarrow> [msg])"
    unfolding out_def rules_def by (rule shown_first_failure)
  have ret: "(snd out = None) = (firstFailure rules \<noteq> None)"
    unfolding out_def rules_def by (rule returned_first_failure)
  have name: "blank n \<longrightarrow> out = ([str ''Name is required''], None)"
    by (simp add: out_def validateContactForm_def reject_def)
  have first: "\<exists>k\<le>i. \<not> fst (rules ! k) \<and> (\<forall>j<k. fst (rules ! j)) \<and> out = ([snd (rules ! k)], None)"
    if "i < length rules" "\<not> fst (rules ! i)" for i
  proof -
    from find_first_failing [OF that] obtain k where k: "k \<le> i" "\<not> fst (rules ! k)" "\<forall>j<k. fst (rules ! j)"
      "find (\<lambda>r. \<not> fst r) rules = Some (rules ! k)" by blast
    then have "firstFailure rules = Some (snd (rules ! k))" by (simp add: firstFailure_def)
    then have "out = ([snd (rules ! k)], None)"
      using validate_as_first_failure [of n e p c m] by (simp add: out_def rules_def)
    with k show ?thesis by blast
  qed
  have later: "fst out \<noteq> [snd (rules ! j)]" if "i < j" "j < length rules" "\<not> fst (rules ! i)" for i j
  proof -
    from that have "i < length rules" by simp
    from first [OF this that(3)] obtain k where k: "k \<le> i" "out = ([snd (rules ! k)], None)" by blast
    have "distinct (map snd rules)" unfolding rules_def by (rule msgs_distinct)
    moreover from k that have "k < length rules" "j < length rules" "k \<noteq> j" by simp_all
    ultimately have "map snd rules ! k \<noteq> map snd rules ! j"
      using nth_eq_iff_index_eq [of "map snd rules" k j] by simp
    with \<open>k < length rules\<close> \<open>j < length rules\<close> have "snd (rules ! k) \<noteq> snd (rules ! j)" by simp
    with k show ?thesis by simp
  qed
  from shown ret name first later show ?thesis
    unfolding out_def rules_def by blast
qed

theorem validateContactForm_rule_order_witness:
  "blank (Some [])
   \<and> validateContactForm (Some []) (Some (str ''a@b.com'')) (Some []) (Some (str ''Acme'')) (Some [])
       = ([str ''Name is required''], None)
   \<and> validateContactForm (Some (str ''Jo'')) (Some []) (Some []) (Some (str ''Acme'')) (Some [])
       = ([str ''Please provide either an email or phone number''], None)
   \<and> validateContactForm (Some (str ''Jo'')) (Some (str ''not-an-email'')) (Some []) (Some (str ''Acme''))
        (Some (str ''hi''))
       = ([str ''Please provide a valid email address''], None)"
proof -
  have b: "blank (Some [])" by (simp add: blank_def)
  with validateContactForm_rule_order
    [of "Some []" "Some (str ''a@b.com'')" "Some []" "Some (str ''Acme'')" "Some []"]
  have "validateContactForm (Some []) (Some (str ''a@b.com'')) (Some []) (Some (str ''Acme'')) (Some [])
       = ([str ''Name is required''], None)" by blast
  moreover have "validateContactForm (Some (str ''Jo'')) (Some []) (Some []) (Some (str ''Acme'')) (Some [])
       = ([str ''Please provide either an email or phone number''], None)"
    by (simp add: js_eval)
  moreover have "validateContactForm (Some (str ''Jo'')) (Some (str ''not-an-email'')) (Some [])
        (Some (str ''Acme'')) (Some (str ''hi''))
       = ([str ''Please provide a valid email address''], None)"
    by (simp add: js_eval)
  ultimately show ?thesis using b by simp
qed

text \<open>
  The earlier validateContactForm has the same cascade: it shows the message of the first
  failing rule and returns false, and returns true when no rule fails.
\<close>

lemma validateContactForm_v1_rule_order:
  "firstFailure (contactRules_v1 n e p c) = Some msg \<Longrightarrow>
     validateContactForm_v1 n e p c m = ([ShowError msg], False)"
  "snd (validateContactForm_v1 n e p c m) = (firstFailure (contactRules_v1 n e p c) = None)"
  "blank n \<Longrightarrow> validateContactForm_v1 n e p c m = ([ShowError (str ''Name is required'')], False)"
  by (auto simp: validateContactForm_v1_def contactRules_v1_def firstFailure_def Let_def
      split: if_splits)

lemma validateContactForm_v1_returns:
  "snd (validateContactForm_v1 n e p c m) =
     (\<not> blank n \<and> \<not> blank c \<and> \<not> (blank e \<and> blank p) \<and> (blank e \<or> isValidEmail_v1 e) \<and>
      (blank p \<or> isValidPhoneNumber_v1 (text_of p)))"
  by (simp add: validateContactForm_v1_def Let_def)

lemma validateContactForm_v1_sends:
  assumes "snd (validateContactForm_v1 n e p c m)"
  shows "\<exists>ns cs. n = Some ns \<and> c = Some cs \<and>
           fst (validateContactForm_v1 n e p c m) =
             sendEmail_v1 (str ''alexis.r.beriot@gmail.com'') (ns @ str '' - '' @ cs)
               (case m of
                  None \<Rightarrow> defaultComment_v1 ns cs
                | Some ms \<Rightarrow> if trim ms = [] then defaultComment_v1 ns cs else ms)
               e p"
proof -
  from assms have nb: "\<not> blank n" "\<not> blank c"
    by (simp_all add: validateContactForm_v1_returns)
  then obtain ns cs where nc: "n = Some ns" "c = Some cs"
    by (auto simp: blank_def split: option.splits)
  have cm: "(if \<not> blank m then text_of m
             else text_of n @ str '' from '' @ text_of c @ str '' was interested by your portfolio'') =
            (case m of
               None \<Rightarrow> defaultComment_v1 ns cs
             | Some ms \<Rightarrow> if trim ms = [] then defaultComment_v1 ns cs else ms)"
    using nc by (auto simp: blank_def text_of_def defaultComment_v1_def trim_Nil split: option.splits)
  from assms have "fst (validateContactForm_v1 n e p c m) =
      sendEmail_v1 (str ''alexis.r.beriot@gmail.com'') (text_of n @ str '' - '' @ text_of c)
        (if \<not> blank m then text_of m
         else text_of n @ str '' from '' @ text_of c @ str '' was interested by your portfolio'')
        e p"
    by (auto simp: validateContactForm_v1_def Let_def split: if_splits)
  with cm nc show ?thesis by (simp add: text_of_def)
qed

text \<open>
  C2 (as amended). Whenever all rules pass, the validateContactForm of validation.js
  returns a record whose name, email, phoneNumber and company are the trimmed fields (an
  absent email or phone becomes the empty string). Its comment is not trimmed: it is the
  input comment verbatim, surrounding whitespace included, when that comment is not
  blank; when the comment is blank or absent and the name and company carry no
  surrounding whitespace, it is the default text
  name + " from " + company + " was interested in your portfolio".
  The earlier validateContactForm returns no record. Whenever all its rules pass it
  returns true, after it has called sendEmail with the title name + " - " + company, the
  email and phone as they were passed, and as content the input comment verbatim when
  that comment is not blank, and otherwise the text
  name + " from " + company + " was interested by your portfolio".
\<close>

theorem validateContactForm_submission:
  "(firstFailure (contactRules n e p c) = None \<longrightarrow>
      (\<exists>sub. validateContactForm n e p c m = ([], Some sub)))
   \<and> (snd (validateContactForm n e p c m) = Some sub \<longrightarrow>
        firstFailure (contactRules n e p c) = None
      \<and> (\<exists>ns cs. n = Some ns \<and> c = Some cs
          \<and> success sub
          \<and> name sub = trim ns \<and> company sub = trim cs
          \<and> email sub = (case e of None \<Rightarrow> [] | Some es \<Rightarrow> trim es)
          \<and> phoneNumber sub = (case p of None \<Rightarrow> [] | Some ps \<Rightarrow> trim ps)
          \<and> trim (name sub) = name sub \<and> trim (company sub) = company sub
          \<and> trim (email sub) = email sub \<and> trim (phoneNumber sub) = phoneNumber sub
          \<and> (\<forall>ms. m = Some ms \<and> trim ms \<noteq> [] \<longrightarrow> finalComment sub = ms)
          \<and> (blank m \<and> trim ns = ns \<and> trim cs = cs \<longrightarrow>
                finalComment sub = defaultComment (name sub) (company sub))))
   \<and> snd (validateContactForm_v1 n e p c m) =
        (\<not> blank n \<and> \<not> blank c \<and> \<not> (blank e \<and> blank p) \<and> (blank e \<or> isValidEmail_v1 e) \<and>
         (blank p \<or> isValidPhoneNumber_v1 (text_of p)))
   \<and> (snd (validateContactForm_v1 n e p c m) \<longrightarrow>
        (\<exists>ns cs. n = Some ns \<and> c = Some cs \<and>
           fst (validateContactForm_v1 n e p c m) =
             sendEmail_v1 (str ''alexis.r.beriot@gmail.com'') (ns @ str '' - '' @ cs)
               (case m of
                  None \<Rightarrow> defaultComment_v1 ns cs
                | Some ms \<Rightarrow> if trim ms = [] then defaultComment_v1 ns cs else ms)
               e p))"
proof -
  have pass: "\<exists>sub. validateContactForm n e p c m = ([], Some sub)"
    if "firstFailure (contactRules n e p c) = None"
    using that validate_as_first_failure [of n e p c m] returned_first_failure [of n e p c m]
    by (cases "snd (validateContactForm n e p c m)") auto
  have rec: "firstFailure (contactRules n e p c) = None
      \<and> (\<exists>ns cs. n = Some ns \<and> c = Some cs
          \<and> success sub
          \<and> name sub = trim ns \<and> company sub = trim cs
          \<and> email sub = (case e of None \<Rightarrow> [] | Some es \<Rightarrow> trim es)
          \<and> phoneNumber sub = (case p of None \<Rightarrow> [] | Some ps \<Rightarrow> trim ps)
          \<and> trim (name sub) = name sub \<and> trim (company sub) = company sub
          \<and> trim (email sub) = email sub \<and> trim (phoneNumber sub) = phoneNumber sub
          \<and> (\<forall>ms. m = Some ms \<and> trim ms \<noteq> [] \<longrightarrow> finalComment sub = ms)
          \<and> (blank m \<and> trim ns = ns \<and> trim cs = cs \<longrightarrow>
                finalComment sub = defaultComment (name sub) (company sub)))"
    if ok: "snd (validateContactForm n e p c m) = Some sub"
  proof -
    from ok returned_first_failure [of n e p c m] have ff: "firstFailure (contactRules n e p c) = None" by auto
    then have nb: "\<not> blank n" "\<not> blank c"
      by (auto simp: firstFailure_def contactRules_def split: if_splits)
    then obtain ns cs where nc: "n = Some ns" "c = Some cs"
      by (auto simp: blank_def split: option.splits)
    from ok nb have sub: "sub = \<lparr>success = True,
                      name = trim (text_of n),
                      email = (if falsy e then [] else trim (text_of e)),
                      phoneNumber = (if falsy p then [] else trim (text_of p)),
                      company = trim (text_of c),
                      finalComment = (if \<not> blank m then text_of m
               else text_of n @ str '' from '' @ text_of c @
                    str '' was interested in your portfolio'')\<rparr>"
      by (auto simp: validateContactForm_def reject_def Let_def split: if_splits)
    have em: "(if falsy e then [] else trim (text_of e)) = (case e of None \<Rightarrow> [] | Some es \<Rightarrow> trim es)"
      by (auto simp: falsy_def text_of_def trim_Nil split: option.splits)
    have ph: "(if falsy p then [] else trim (text_of p)) = (case p of None \<Rightarrow> [] | Some ps \<Rightarrow> trim ps)"
      by (auto simp: falsy_def text_of_def trim_Nil split: option.splits)
    have verbatim: "\<forall>ms. m = Some ms \<and> trim ms \<noteq> [] \<longrightarrow> finalComment sub = ms"
      unfolding sub by (auto simp: blank_def text_of_def trim_Nil)
    have default: "finalComment sub = defaultComment (name sub) (company sub)"
      if "blank m" "trim ns = ns" "trim cs = cs"
      unfolding sub using that nc by (simp add: text_of_def defaultComment_def)
    have fields: "success sub" "name sub = trim ns" "company sub = trim cs"
      "email sub = (case e of None \<Rightarrow> [] | Some es \<Rightarrow> trim es)"
      "phoneNumber sub = (case p of None \<Rightarrow> [] | Some ps \<Rightarrow> trim ps)"
      unfolding sub em ph using nc by (simp_all add: text_of_def)
    have trimmed: "trim (name sub) = name sub" "trim (company sub) = company sub"
      "trim (email sub) = email sub" "trim (phoneNumber sub) = phoneNumber sub"
      unfolding fields by (simp_all add: trim_idem trim_Nil split: option.splits)
    from ff nc fields trimmed verbatim default show ?thesis by blast
  qed
  note old = validateContactForm_v1_returns [of n e p c m] validateContactForm_v1_sends [of n e p c m]
  from pass rec old show ?thesis by blast
qed

theorem validateContactForm_submission_witness:
  "firstFailure (contactRules (Some (str ''Jo'')) (Some []) (Some (str ''0612345678''))
      (Some (str ''Acme''))) = None
   \<and> validateContactForm (Some (str ''Jo'')) (Some []) (Some (str ''0612345678''))
        (Some (str ''Acme'')) (Some [])
       = ([], Some \<lparr>success = True, name = str ''Jo'', email = [],
                     phoneNumber = str ''0612345678'', company = str ''Acme'',
                     finalComment = str ''Jo from Acme was interested in your portfolio''\<rparr>)
   \<and> validateContactForm (Some (str ''Jo'')) (Some (str ''jo@x.com'')) (Some [])
        (Some (str ''Acme'')) (Some (str ''custom text''))
       = ([], Some \<lparr>success = True, name = str ''Jo'', email = str ''jo@x.com'',
                     phoneNumber = [], company = str ''Acme'',
                     finalComment = str ''custom text''\<rparr>)
   \<and> validateContactForm_v1 (Some (str ''Jo'')) (Some []) (Some (str ''0612345678''))
        (Some (str ''Acme'')) (Some [])
       = (sendEmail_v1 (str ''alexis.r.beriot@gmail.com'') (str ''Jo - Acme'')
            (str ''Jo from Acme was interested by your portfolio'') (Some [])
            (Some (str ''0612345678'')), True)"
proof -
  let ?sub = "\<lparr>success = True, name = str ''Jo'', email = [],
                     phoneNumber = str ''0612345678'', company = str ''Acme'',
                     finalComment = str ''Jo from Acme was interested in your portfolio''\<rparr>"
  have ff: "firstFailure (contactRules (Some (str ''Jo'')) (Some []) (Some (str ''0612345678''))
      (Some (str ''Acme''))) = None"
    by (simp add: firstFailure_def contactRules_def js_eval)
  have v: "validateContactForm (Some (str ''Jo'')) (Some []) (Some (str ''0612345678''))
        (Some (str ''Acme'')) (Some []) = ([], Some ?sub)"
    by (simp add: js_eval)
  have t: "blank (Some [])" "trim (str ''Jo'') = str ''Jo''" "trim (str ''Acme'') = str ''Acme''"
    by (simp_all add: js_eval)
  have r: "snd (validateContactForm_v1 (Some (str ''Jo'')) (Some []) (Some (str ''0612345678''))
        (Some (str ''Acme'')) (Some []))"
    by (simp add: validateContactForm_v1_def isValidPhoneNumber_v1_def phoneRegex_v1_def
        isPhoneSeparator_v1_def js_eval)
  note T = validateContactForm_submission
    [of "Some (str ''Jo'')" "Some []" "Some (str ''0612345678'')" "Some (str ''Acme'')" "Some []" ?sub]
  from T ff v t
  have "finalComment ?sub = defaultComment (name ?sub) (company ?sub)"
    by auto
  moreover from T r
  have "fst (validateContactForm_v1 (Some (str ''Jo'')) (Some []) (Some (str ''0612345678''))
        (Some (str ''Acme'')) (Some [])) =
      sendEmail_v1 (str ''alexis.r.beriot@gmail.com'') (str ''Jo'' @ str '' - '' @ str ''Acme'')
        (defaultComment_v1 (str ''Jo'') (str ''Acme'')) (Some []) (Some (str ''0612345678''))"
    by (auto simp: trim_Nil)
  then have "validateContactForm_v1 (Some (str ''Jo'')) (Some []) (Some (str ''0612345678''))
        (Some (str ''Acme'')) (Some [])
       = (sendEmail_v1 (str ''alexis.r.beriot@gmail.com'') (str ''Jo - Acme'')
            (str ''Jo from Acme was interested by your portfolio'') (Some [])
            (Some (str ''0612345678'')), True)"
    using r by (simp add: prod_eq_iff defaultComment_v1_def str_def)
  moreover have c: "validateContactForm (Some (str ''Jo'')) (Some (str ''jo@x.com'')) (Some [])
        (Some (str ''Acme'')) (Some (str ''custom text''))
       = ([], Some \<lparr>success = True, name = str ''Jo'', email = str ''jo@x.com'',
                     phoneNumber = [], company = str ''Acme'',
                     finalComment = str ''custom text''\<rparr>)"
    by (simp add: js_eval)
  moreover have "trim (str ''custom text'') \<noteq> []" by (simp add: js_eval)
  with c validateContactForm_submission
    [of "Some (str ''Jo'')" "Some (str ''jo@x.com'')" "Some []" "Some (str ''Acme'')"
      "Some (str ''custom text'')"
      "\<lparr>success = True, name = str ''Jo'', email = str ''jo@x.com'',
                     phoneNumber = [], company = str ''Acme'',
                     finalComment = str ''custom text''\<rparr>"]
  have "finalComment \<lparr>success = True, name = str ''Jo'', email = str ''jo@x.com'',
                     phoneNumber = [], company = str ''Acme'',
                     finalComment = str ''custom text''\<rparr> = str ''custom text''"
    by auto
  ultimately show ?thesis using ff v by simp
qed

text \<open>
  The claim as stated fails on a comment with surrounding whitespace: the record of
  validation.js holds that comment verbatim, which is not trimmed. With surrounding
  whitespace in the name or company and a blank comment, the default text of
  validation.js is not trimmed either and differs from the text built from the record's
  name and company. The claim fails on the earlier validateContactForm too: on the
  claim's own example that function returns true and no record, and the default text it
  hands to sendEmail reads "interested by"; and it trims nothing of what it passes on.
\<close>

theorem validateContactForm_comment_not_trimmed:
  "validateContactForm (Some (str ''Jo'')) (Some []) (Some (str ''0612345678''))
        (Some (str ''Acme'')) (Some (str '' hi ''))
       = ([], Some \<lparr>success = True, name = str ''Jo'', email = [],
                     phoneNumber = str ''0612345678'', company = str ''Acme'',
                     finalComment = str '' hi ''\<rparr>)
   \<and> trim (str '' hi '') \<noteq> str '' hi ''
   \<and> validateContactForm (Some (str '' Jo '')) (Some []) (Some (str ''0612345678''))
        (Some (str '' Acme '')) (Some [])
       = ([], Some \<lparr>success = True, name = str ''Jo'', email = [],
                     phoneNumber = str ''0612345678'', company = str ''Acme'',
                     finalComment = str '' Jo  from  Acme  was interested in your portfolio''\<rparr>)
   \<and> str '' Jo  from  Acme  was interested in your portfolio'' \<noteq>
       defaultComment (str ''Jo'') (str ''Acme'')
   \<and> validateContactForm_v1 (Some (str ''Jo'')) (Some []) (Some (str ''0612345678''))
        (Some (str ''Acme'')) (Some [])
       = (sendEmail_v1 (str ''alexis.r.beriot@gmail.com'') (str ''Jo - Acme'')
            (str ''Jo from Acme was interested by your portfolio'') (Some [])
            (Some (str ''0612345678'')), True)
   \<and> str ''Jo from Acme was interested by your portfolio'' \<noteq>
       str ''Jo from Acme was interested in your portfolio''
   \<and> validateContactForm_v1 (Some (str ''Jo'')) (Some []) (Some (str '' 06 12 34 56 78 ''))
        (Some (str ''Acme'')) (Some (str '' hi ''))
       = (sendEmail_v1 (str ''alexis.r.beriot@gmail.com'') (str ''Jo - Acme'')
            (str '' hi '') (Some []) (Some (str '' 06 12 34 56 78 '')), True)"
  by (simp add: validateContactForm_v1_def isValidPhoneNumber_v1_def phoneRegex_v1_def
      isPhoneSeparator_v1_def defaultComment_def js_eval)

section \<open>Properties of the regular-expression matcher\<close>

inductive_simps accepts_Never [simp]: "accepts Never w"
inductive_simps accepts_Eps [simp]: "accepts Eps w"
inductive_simps accepts_Cls [simp]: "accepts (Cls P) w"
inductive_simps accepts_Alt [simp]: "accepts (Alt r s) w"
inductive_simps accepts_Cat: "accepts (Cat r s) w"

lemma nullable_accepts: "nullable r \<longleftrightarrow> accepts r []"
  by (induction r) (auto simp: accepts_Cat intro: acc_StarNil)

lemma accepts_Star_Cons:
  "accepts (Star r) w \<Longrightarrow> w = c # x \<Longrightarrow>
     \<exists>u v. x = u @ v \<and> accepts r (c # u) \<and> accepts (Star r) v"
proof (induction "Star r" w arbitrary: x rule: accepts.induct)
  case acc_StarNil
  then show ?case by simp
next
  case (acc_StarStep u v)
  show ?case
  proof (cases u)
    case Nil
    with acc_StarStep show ?thesis by simp
  next
    case (Cons a u')
    with acc_StarStep.prems have "a = c" "x = u' @ v" by simp_all
    with Cons acc_StarStep.hyps show ?thesis by blast
  qed
qed

lemma deriv_accepts: "accepts (deriv c r) w \<longleftrightarrow> accepts r (c # w)"
proof (induction r arbitrary: w)
  case (Cat r s)
  show ?case
  proof
    assume "accepts (deriv c (Cat r s)) w"
    then consider (left) u v where "w = u @ v" "accepts (deriv c r) u" "accepts s v"
      | (right) "nullable r" "accepts (deriv c s) w"
      by (auto simp: accepts_Cat split: if_splits)
    then show "accepts (Cat r s) (c # w)"
    proof cases
      case left
      then have "accepts r (c # u)" using Cat.IH(1) by simp
      with left have "accepts (Cat r s) ((c # u) @ v)" by (intro acc_Cat)
      with left show ?thesis by simp
    next
      case right
      then have "accepts r []" "accepts s (c # w)"
        using Cat.IH(2) by (simp_all add: nullable_accepts)
      then have "accepts (Cat r s) ([] @ c # w)" by (rule acc_Cat)
      then show ?thesis by simp
    qed
  next
    assume "accepts (Cat r s) (c # w)"
    then obtain u v where uv: "c # w = u @ v" "accepts r u" "accepts s v"
      by (auto simp: accepts_Cat)
    show "accepts (deriv c (Cat r s)) w"
    proof (cases u)
      case Nil
      with uv have "nullable r" "accepts (deriv c s) w"
        using Cat.IH(2) by (simp_all add: nullable_accepts)
      then show ?thesis by simp
    next
      case (Cons a u')
      with uv have "w = u' @ v" "accepts (deriv c r) u'"
        using Cat.IH(1) by simp_all
      with uv(3) have "accepts (Cat (deriv c r) s) w"
        by (auto simp: accepts_Cat)
      then show ?thesis by simp
    qed
  qed
next
  case (Star r)
  show ?case
  proof
    assume "accepts (deriv c (Star r)) w"
    then obtain u v where "w = u @ v" "accepts (deriv c r) u" "accepts (Star r) v"
      by (auto simp: accepts_Cat)
    then have "accepts (Star r) ((c # u) @ v)"
      using Star.IH by (intro acc_StarStep) simp
    with \<open>w = u @ v\<close> show "accepts (Star r) (c # w)" by simp
  next
    assume "accepts (Star r) (c # w)"
    from accepts_Star_Cons [OF this refl]
    obtain u v where "w = u @ v" "accepts r (c # u)" "accepts (Star r) v" by blast
    then show "accepts (deriv c (Star r)) w"
      using Star.IH by (auto simp: accepts_Cat)
  qed
qed (auto simp: Cons_eq_append_conv)

lemma matches_accepts: "matches r w \<longleftrightarrow> accepts r w"
  by (induction w arbitrary: r) (simp_all add: nullable_accepts deriv_accepts)

lemma accepts_chars: "accepts r w \<Longrightarrow> classesWithin Q r \<Longrightarrow> list_all Q w"
  by (induction rule: accepts.induct) simp_all

lemma matches_chars: "matches r w \<Longrightarrow> classesWithin Q r \<Longrightarrow> list_all Q w"
  using accepts_chars matches_accepts by blast

lemma matches_nonempty: "matches r w \<Longrightarrow> \<not> nullable r \<Longrightarrow> w \<noteq> []"
  by (cases w) auto

lemma emailRegex_no_space: "classesWithin (\<lambda>c. \<not> isWhiteSpace c) emailRegex"
  by (simp add: emailRegex_def plus1_def Lit_def notSpaceAt_def cu_def isWhiteSpace_def)

lemma emailRegex_not_nullable: "\<not> nullable emailRegex"
  by (simp add: emailRegex_def plus1_def Lit_def)

lemma trim_padded:
  assumes "list_all isWhiteSpace ws1" "list_all isWhiteSpace ws2"
    and "a \<noteq> []" "list_all (\<lambda>c. \<not> isWhiteSpace c) a"
  shows "trim (ws1 @ a @ ws2) = a"
proof -
  from assms(3) obtain x xs where a: "a = x # xs" by (cases a) auto
  with assms(4) have x: "\<not> isWhiteSpace x" by simp
  from assms(3) obtain y ys where ra: "rev a = y # ys" by (cases "rev a") auto
  then have "y \<in> set a" by (metis list.set_intros(1) set_rev)
  with assms(4) have y: "\<not> isWhiteSpace y" by (simp add: list_all_iff)
  have "dropWhile isWhiteSpace (ws1 @ a @ ws2) = a @ ws2"
    using assms(1) x by (simp add: a dropWhile_append2 list_all_iff)
  moreover have "dropWhile isWhiteSpace (rev ws2 @ y # ys) = dropWhile isWhiteSpace (y # ys)"
    using assms(2) by (intro dropWhile_append2) (simp add: list_all_iff)
  then have "dropWhile isWhiteSpace (rev (a @ ws2)) = rev a"
    using y by (simp add: ra)
  ultimately show ?thesis by (simp add: trim_def)
qed

section \<open>Properties of \<open>sendEmail\<close>\<close>

lemma credentialWarnings_harmless:
  "list_all (\<lambda>x. \<not> isDelivery x \<and> \<not> isPayloadLog x \<and> \<not> isNotification x) (credentialWarnings cr)"
  by (simp add: credentialWarnings_def)

lemma placeholder_invalid: "\<not> isValidCredentials placeholderCredentials"
  by (simp add: isValidCredentials_def placeholderCredentials_def)

lemma sendEmail_v1_effects:
  "list_all (\<lambda>x. \<not> isDelivery x) (sendEmail_v1 tgt title content se sp)"
  "filter isNotification (sendEmail_v1 tgt title content se sp) = [ShowInfo previewMessage_v1]"
  by (simp_all add: sendEmail_v1_def)

lemma emailContent_v1_example:
  "emailContent_v1 (str ''hi'') (Some (str ''jo@x.com'')) None =
     [10] @ str ''        hi'' @ [10] @ str ''        '' @ [10] @ str ''        ---'' @ [10] @
     str ''        Contact Information:'' @ [10] @ str ''        Email: jo@x.com'' @ [10] @
     str ''        '' @ [10] @ str ''    ''"
  by (simp add: emailContent_v1_def nl_def replicate_numeral_Cons js_eval)

text \<open>
  C8 (as amended). With credentials that are missing or still placeholders, neither copy
  of sendEmail calls the EmailJS API, whatever the arguments and surroundings (the
  earlier copy has no such call outside a comment), and the initialisation flag of
  email.js stays as it was. The earlier sendEmail shows exactly one notification on every
  call, its informational "Preview only" message. The sendEmail of email.js does so when
  the EmailJS library is loaded and the target address is valid: it then writes its fixed
  warnings about the credentials, shows exactly one notification, the informational
  "Preview only" message, and logs the would-be payload if and only if the hostname is
  localhost or 127.0.0.1.
\<close>

theorem sendEmail_unconfigured:
  assumes "\<not> isValidCredentials cr"
  shows "list_all (\<lambda>x. \<not> isDelivery x) (fst (sendEmailWith cr ev init target title content se sp))
    \<and> snd (sendEmailWith cr ev init target title content se sp) = init
    \<and> (emailjsLoaded ev \<and> \<not> falsy target \<and> isValidEmail target \<longrightarrow>
         fst (sendEmailWith cr ev init target title content se sp) =
           credentialWarnings cr @
           (if hostname ev = str ''localhost'' \<or> hostname ev = str ''127.0.0.1''
            then [ConsoleLog (str ''Email would be sent with the following content:''),
                  ConsoleLogPayload (text_of target) title (emailBody content se sp)]
            else []) @
           [ShowInfo previewMessage]
       \<and> filter isNotification (fst (sendEmailWith cr ev init target title content se sp)) =
           [ShowInfo previewMessage]
       \<and> list_ex isPayloadLog (fst (sendEmailWith cr ev init target title content se sp)) =
           (hostname ev = str ''localhost'' \<or> hostname ev = str ''127.0.0.1''))
    \<and> list_all (\<lambda>x. \<not> isDelivery x) (sendEmail_v1 tgt title content se1 sp1)
    \<and> filter isNotification (sendEmail_v1 tgt title content se1 sp1) =
         [ShowInfo previewMessage_v1]"
proof -
  note w = credentialWarnings_harmless [of cr]
  have nodeliv: "list_all (\<lambda>x. \<not> isDelivery x) (credentialWarnings cr)"
    and nopay: "\<not> list_ex isPayloadLog (credentialWarnings cr)"
    and nonote: "filter isNotification (credentialWarnings cr) = []"
    using w by (auto simp: list_all_iff list_ex_iff filter_empty_conv)
  have a: "list_all (\<lambda>x. \<not> isDelivery x) (fst (sendEmailWith cr ev init target title content se sp))"
    using assms nodeliv by (simp add: sendEmailWith_def Let_def)
  have b: "snd (sendEmailWith cr ev init target title content se sp) = init"
    using assms by (simp add: sendEmailWith_def Let_def)
  have c: "fst (sendEmailWith cr ev init target title content se sp) =
           credentialWarnings cr @
           (if hostname ev = str ''localhost'' \<or> hostname ev = str ''127.0.0.1''
            then [ConsoleLog (str ''Email would be sent with the following content:''),
                  ConsoleLogPayload (text_of target) title (emailBody content se sp)]
            else []) @
           [ShowInfo previewMessage]"
    if "emailjsLoaded ev" "\<not> falsy target" "isValidEmail target"
    using assms that by (simp add: sendEmailWith_def Let_def)
  have d: "filter isNotification (fst (sendEmailWith cr ev init target title content se sp)) =
           [ShowInfo previewMessage]"
    if "emailjsLoaded ev" "\<not> falsy target" "isValidEmail target"
    unfolding c [OF that] using nonote by simp
  have e: "list_ex isPayloadLog (fst (sendEmailWith cr ev init target title content se sp)) =
           (hostname ev = str ''localhost'' \<or> hostname ev = str ''127.0.0.1'')"
    if "emailjsLoaded ev" "\<not> falsy target" "isValidEmail target"
    unfolding c [OF that] using nopay by simp
  note old = sendEmail_v1_effects [of tgt title content se1 sp1]
  from a b c d e old show ?thesis by blast
qed

theorem sendEmail_unconfigured_witness:
  "\<not> isValidCredentials placeholderCredentials
   \<and> fst (sendEmail \<lparr>emailjsLoaded = True, hostname = str ''example.org''\<rparr> False
        (Some (str ''a@b.co'')) (str ''Jo - Acme'') (str ''hi'') (str ''jo@x.com'') []) =
       [ConsoleWarn (str
          ''EmailJS credentials are not configured. Missing or placeholder values detected:''),
        ConsoleWarn (str ''  - serviceID is missing or placeholder''),
        ConsoleWarn (str ''  - templateID is missing or placeholder''),
        ConsoleWarn (str ''  - publicKey is missing or placeholder''),
        ShowInfo previewMessage]
   \<and> list_ex isPayloadLog (fst (sendEmail \<lparr>emailjsLoaded = True, hostname = str ''localhost''\<rparr> False
        (Some (str ''a@b.co'')) (str ''Jo - Acme'') (str ''hi'') (str ''jo@x.com'') []))
   \<and> filter isNotification
        (sendEmail_v1 (str ''a@b.co'') (str ''Jo - Acme'') (str ''hi'') (Some (str ''jo@x.com'')) None) =
       [ShowInfo previewMessage_v1]"
proof -
  have t: "\<not> falsy (Some (str ''a@b.co''))" "isValidEmail (Some (str ''a@b.co''))"
    by (simp_all add: js_eval)
  have h: "str ''example.org'' \<noteq> str ''localhost''" "str ''example.org'' \<noteq> str ''127.0.0.1''"
    by (simp_all add: str_def)
  from sendEmail_unconfigured [OF placeholder_invalid,
      of "\<lparr>emailjsLoaded = True, hostname = str ''example.org''\<rparr>" False
         "Some (str ''a@b.co'')" "str ''Jo - Acme''" "str ''hi''" "str ''jo@x.com''" "[]"
         "str ''a@b.co''" "Some (str ''jo@x.com'')" None] t h
  have "fst (sendEmail \<lparr>emailjsLoaded = True, hostname = str ''example.org''\<rparr> False
        (Some (str ''a@b.co'')) (str ''Jo - Acme'') (str ''hi'') (str ''jo@x.com'') []) =
        credentialWarnings placeholderCredentials @ [ShowInfo previewMessage]"
    by (simp add: sendEmail_def)
  moreover
  from sendEmail_unconfigured [OF placeholder_invalid,
      of "\<lparr>emailjsLoaded = True, hostname = str ''localhost''\<rparr>" False
         "Some (str ''a@b.co'')" "str ''Jo - Acme''" "str ''hi''" "str ''jo@x.com''" "[]"
         "str ''a@b.co''" "Some (str ''jo@x.com'')" None] t
  have "list_ex isPayloadLog (fst (sendEmail \<lparr>emailjsLoaded = True, hostname = str ''localhost''\<rparr> False
        (Some (str ''a@b.co'')) (str ''Jo - Acme'') (str ''hi'') (str ''jo@x.com'') []))"
    and "filter isNotification
        (sendEmail_v1 (str ''a@b.co'') (str ''Jo - Acme'') (str ''hi'') (Some (str ''jo@x.com'')) None) =
       [ShowInfo previewMessage_v1]"
    by (simp_all add: sendEmail_def)
  ultimately show ?thesis
    using placeholder_invalid
    by (simp add: credentialWarnings_def placeholderCredentials_def falsy_def)
qed

text \<open>
  The claim as stated fails on email.js when the EmailJS library is not loaded: with the
  placeholder credentials the user then sees the error "Email service is not available",
  not the preview message (an invalid target address is rejected with an error in the
  same way). It fails on the earlier sendEmail too, which does not read the hostname: it
  writes the would-be payload to the console on every call, on any host.
\<close>

theorem sendEmail_unconfigured_without_emailjs:
  "\<not> isValidCredentials placeholderCredentials
   \<and> sendEmail \<lparr>emailjsLoaded = False, hostname = str ''example.org''\<rparr> False
        (Some (str ''a@b.co'')) (str ''Jo - Acme'') (str ''hi'') (str ''jo@x.com'') [] =
       ([ShowError (str ''Email service is not available. Please try again later.''),
         ConsoleError (str ''EmailJS is not loaded.'') None], False)
   \<and> ShowInfo previewMessage \<notin> set (fst (sendEmail
        \<lparr>emailjsLoaded = False, hostname = str ''example.org''\<rparr> False
        (Some (str ''a@b.co'')) (str ''Jo - Acme'') (str ''hi'') (str ''jo@x.com'') []))
   \<and> sendEmail_v1 (str ''a@b.co'') (str ''Jo - Acme'') (str ''hi'') (Some (str ''jo@x.com'')) None =
       [ConsoleLog (str ''Email would be sent with the following content:''),
        ConsoleLogPayload (str ''a@b.co'') (str ''Jo - Acme'')
          (emailContent_v1 (str ''hi'') (Some (str ''jo@x.com'')) None),
        ShowInfo previewMessage_v1]
   \<and> list_ex isPayloadLog
        (sendEmail_v1 (str ''a@b.co'') (str ''Jo - Acme'') (str ''hi'') (Some (str ''jo@x.com'')) None)"
  using placeholder_invalid by (simp add: sendEmail_def sendEmailWith_def sendEmail_v1_def)

section \<open>Properties of \<open>isValidEmail\<close>\<close>

text \<open>
  C9. isValidEmail trims before it matches: an address accepted by the pattern and then
  padded with whitespace on either side is valid, although the pattern itself rejects
  the padded string. Hence validateContactForm's email rule passes for such an input
  (the record then holds the trimmed address), and sendEmail's check of the target
  address passes too.
\<close>

theorem isValidEmail_trims_padding:
  assumes ws: "list_all isWhiteSpace ws1" "list_all isWhiteSpace ws2"
    and addr: "matches emailRegex a"
  shows "isValidEmail (Some (ws1 @ a @ ws2))
    \<and> (ws1 @ ws2 \<noteq> [] \<longrightarrow> \<not> matches emailRegex (ws1 @ a @ ws2))
    \<and> (\<not> blank n \<and> \<not> blank c \<longrightarrow>
         fst (validateContactForm n (Some (ws1 @ a @ ws2)) p c m) \<noteq>
           [str ''Please provide a valid email address'']
       \<and> (blank p \<longrightarrow>
            (\<exists>sub. validateContactForm n (Some (ws1 @ a @ ws2)) p c m = ([], Some sub)
               \<and> email sub = a)))
    \<and> (emailjsLoaded ev \<longrightarrow>
         ShowError (str ''Invalid recipient email address.'') \<notin>
           set (fst (sendEmailWith cr ev init (Some (ws1 @ a @ ws2)) title content se sp)))"
proof -
  let ?padded = "ws1 @ a @ ws2"
  from addr have ne: "a \<noteq> []" and ns: "list_all (\<lambda>c. \<not> isWhiteSpace c) a"
    using matches_nonempty [OF _ emailRegex_not_nullable] matches_chars [OF _ emailRegex_no_space]
    by blast+
  have tr: "trim ?padded = a" using ws ne ns by (rule trim_padded)
  have pne: "?padded \<noteq> []" using ne by simp
  have valid: "isValidEmail (Some ?padded)"
    using addr pne by (simp add: isValidEmail_def tr)
  have nb: "\<not> blank (Some ?padded)" "\<not> falsy (Some ?padded)"
    using ne pne by (simp_all add: blank_def falsy_def tr)
  have strict: "\<not> matches emailRegex ?padded" if "ws1 @ ws2 \<noteq> []"
  proof
    assume "matches emailRegex ?padded"
    then have "list_all (\<lambda>c. \<not> isWhiteSpace c) ?padded"
      by (rule matches_chars [OF _ emailRegex_no_space])
    then have "list_all (\<lambda>c. \<not> isWhiteSpace c) (ws1 @ ws2)" by simp
    moreover from ws have "list_all isWhiteSpace (ws1 @ ws2)" by simp
    ultimately have "ws1 @ ws2 = []" by (cases "ws1 @ ws2") simp_all
    with that show False by simp
  qed
  have form1: "fst (validateContactForm n (Some ?padded) p c m) \<noteq>
           [str ''Please provide a valid email address'']" if "\<not> blank n" "\<not> blank c"
  proof -
    have d: "str ''Please provide a valid phone number (French +33 or international format)'' \<noteq>
          str ''Please provide a valid email address''"
      by (simp add: str_def)
    show ?thesis
      using that valid nb(1) d
      by (simp add: validateContactForm_def reject_def Let_def)
  qed
  have form2: "\<exists>sub. validateContactForm n (Some ?padded) p c m = ([], Some sub) \<and> email sub = a"
    if "\<not> blank n" "\<not> blank c" "blank p"
    using that valid nb by (simp add: validateContactForm_def Let_def text_of_def tr)
  have send: "ShowError (str ''Invalid recipient email address.'') \<notin>
           set (fst (sendEmailWith cr ev init (Some ?padded) title content se sp))"
    if "emailjsLoaded ev"
  proof -
    have "ShowError (str ''Invalid recipient email address.'') \<notin> set (credentialWarnings cr)"
      using credentialWarnings_harmless [of cr] by (auto simp: list_all_iff)
    then show ?thesis
      using that valid nb(2) by (simp add: sendEmailWith_def Let_def)
  qed
  from valid strict form1 form2 send show ?thesis by blast
qed

theorem isValidEmail_trims_padding_witness:
  "list_all isWhiteSpace [32] \<and> list_all isWhiteSpace [9, 10]
   \<and> matches emailRegex (str ''jo@x.com'')
   \<and> isValidEmail (Some ([32] @ str ''jo@x.com'' @ [9, 10]))
   \<and> \<not> matches emailRegex ([32] @ str ''jo@x.com'' @ [9, 10])
   \<and> validateContactForm (Some (str ''Jo'')) (Some ([32] @ str ''jo@x.com'' @ [9, 10])) None
        (Some (str ''Acme'')) None
      = ([], Some \<lparr>success = True, name = str ''Jo'', email = str ''jo@x.com'',
                    phoneNumber = [], company = str ''Acme'',
                    finalComment = str ''Jo from Acme was interested in your portfolio''\<rparr>)"
proof -
  have h: "list_all isWhiteSpace [32]" "list_all isWhiteSpace [9, 10]"
    "matches emailRegex (str ''jo@x.com'')"
    by (simp_all add: js_eval)
  from isValidEmail_trims_padding [OF h]
  have "isValidEmail (Some ([32] @ str ''jo@x.com'' @ [9, 10]))"
    and "\<not> matches emailRegex ([32] @ str ''jo@x.com'' @ [9, 10])"
    by simp_all
  moreover have "validateContactForm (Some (str ''Jo'')) (Some ([32] @ str ''jo@x.com'' @ [9, 10])) None
        (Some (str ''Acme'')) None
      = ([], Some \<lparr>success = True, name = str ''Jo'', email = str ''jo@x.com'',
                    phoneNumber = [], company = str ''Acme'',
                    finalComment = str ''Jo from Acme was interested in your portfolio''\<rparr>)"
    by (simp add: js_eval)
  ultimately show ?thesis using h by simp
qed

section \<open>Properties of \<open>switchLanguage\<close>\<close>

lemmas path_eval = switchPath_def testHtml_def testFrHtml_def endsWithCI_def endsWith_def
  removeFr_def insertFr_def lowerAscii_def Let_def str_def cu_def

lemma endsWithCI_append:
  "length x = length v \<Longrightarrow> map lowerAscii x = v \<Longrightarrow>
     endsWithCI (w @ v) (b @ x) \<longleftrightarrow> endsWithCI w b"
  by (auto simp: endsWithCI_def)

lemma endsWithCI_self: "map lowerAscii x = v \<Longrightarrow> endsWithCI v (b @ x)"
  by (auto simp: endsWithCI_def)

lemma html_length: "map lowerAscii x = str ''.html'' \<Longrightarrow> length x = 5"
  by (drule arg_cong [where f = length]) (simp add: str_def)

lemma fr_html_split: "str ''-fr.html'' = str ''-fr'' @ str ''.html''"
  by (simp add: str_def)

lemma testHtml_page: "map lowerAscii x = str ''.html'' \<Longrightarrow> testHtml (b @ x)"
  unfolding testHtml_def by (rule endsWithCI_self)

lemma testFrHtml_page:
  "map lowerAscii x = str ''.html'' \<Longrightarrow> testFrHtml (b @ x) \<longleftrightarrow> endsWithCI (str ''-fr'') b"
  unfolding testFrHtml_def fr_html_split
  by (rule endsWithCI_append) (simp_all add: html_length, simp add: str_def)

lemma testHtml_split:
  assumes "testHtml p"
  obtains b x where "p = b @ x" "map lowerAscii x = str ''.html''"
proof -
  let ?k = "length p - length (str ''.html'')"
  from assms have "map lowerAscii (drop ?k p) = str ''.html''"
    by (simp add: testHtml_def endsWithCI_def)
  moreover have "p = take ?k p @ drop ?k p" by simp
  ultimately show ?thesis by (rule that [rotated])
qed

lemma switchPath_french_page:
  assumes "map lowerAscii x = str ''.html''"
  shows "switchPath 0 (b @ x) =
           (if endsWithCI (str ''-fr'') b then b @ x else b @ str ''-fr'' @ x)"
  using assms testHtml_page [OF assms, of b] testFrHtml_page [OF assms, of b] html_length [OF assms]
  by (simp add: switchPath_def insertFr_def)

lemma switchPath_english_page:
  assumes "map lowerAscii x = str ''.html''"
  shows "switchPath 1 (b @ x) =
           (if endsWithCI (str ''-fr'') b then take (length b - 3) b @ x else b @ x)"
  using assms testHtml_page [OF assms, of b] testFrHtml_page [OF assms, of b] html_length [OF assms]
  by (simp add: switchPath_def removeFr_def)

lemma index_html: "map lowerAscii (str ''.html'') = str ''.html''"
  by (simp add: str_def lowerAscii_def cu_def)

lemma switchPath_normalizes:
  assumes "\<not> testHtml q"
  shows "switchPath lang q =
           switchPath lang ((if endsWith q (str ''/'') then q else q @ str ''/'') @ str ''index.html'')"
proof -
  have "str ''index.html'' = str ''index'' @ str ''.html''" by (simp add: str_def)
  then have "testHtml ((if endsWith q (str ''/'') then q else q @ str ''/'') @ str ''index.html'')"
    using testHtml_page [OF index_html, of "(if endsWith q (str ''/'') then q else q @ str ''/'') @ str ''index''"]
    by simp
  with assms show ?thesis by (simp add: switchPath_def Let_def)
qed

lemma endsWithCI_fr_append: "endsWithCI (str ''-fr'') (b @ str ''-fr'')"
  by (rule endsWithCI_self) (simp add: str_def lowerAscii_def cu_def)

lemma switchPath_french_result:
  "\<exists>b x. switchPath 0 q = b @ x \<and> map lowerAscii x = str ''.html'' \<and> endsWithCI (str ''-fr'') b"
proof -
  have page: "\<exists>b' x'. switchPath 0 (b @ x) = b' @ x' \<and> map lowerAscii x' = str ''.html''
      \<and> endsWithCI (str ''-fr'') b'" if x: "map lowerAscii x = str ''.html''" for b x
  proof (cases "endsWithCI (str ''-fr'') b")
    case True
    then have "switchPath 0 (b @ x) = b @ x" by (simp add: switchPath_french_page [OF x])
    with x True show ?thesis by blast
  next
    case False
    then have "switchPath 0 (b @ x) = (b @ str ''-fr'') @ x"
      by (simp add: switchPath_french_page [OF x])
    with x endsWithCI_fr_append [of b] show ?thesis by blast
  qed
  show ?thesis
  proof (cases "testHtml q")
    case True
    then obtain b x where "q = b @ x" "map lowerAscii x = str ''.html''" by (rule testHtml_split)
    with page show ?thesis by simp
  next
    case False
    define n where "n = (if endsWith q (str ''/'') then q else q @ str ''/'') @ str ''index''"
    have "str ''index.html'' = str ''index'' @ str ''.html''" by (simp add: str_def)
    then have "(if endsWith q (str ''/'') then q else q @ str ''/'') @ str ''index.html'' =
      n @ str ''.html''"
      by (simp add: n_def)
    then have "switchPath 0 q = switchPath 0 (n @ str ''.html'')"
      using switchPath_normalizes [OF False, of 0] by simp
    with page [OF index_html, of n] show ?thesis by simp
  qed
qed

lemma switchPath_french_idem: "switchPath 0 (switchPath 0 q) = switchPath 0 q"
proof -
  from switchPath_french_result [of q] obtain b x where
    r: "switchPath 0 q = b @ x" "map lowerAscii x = str ''.html''" "endsWithCI (str ''-fr'') b"
    by blast
  then show ?thesis by (simp add: switchPath_french_page)
qed

lemma take_fr: "take (length (b @ str ''-fr'') - 3) (b @ str ''-fr'') = b"
  by (simp add: str_def)

lemma switchPath_round_trip:
  assumes x: "map lowerAscii x = str ''.html''" and b: "\<not> endsWithCI (str ''-fr'') b"
  shows "switchPath 1 (switchPath 0 (b @ x)) = b @ x"
proof -
  have "switchPath 0 (b @ x) = (b @ str ''-fr'') @ x"
    using b by (simp add: switchPath_french_page [OF x])
  moreover have "switchPath 1 ((b @ str ''-fr'') @ x) = take (length (b @ str ''-fr'') - 3) (b @ str ''-fr'') @ x"
    using endsWithCI_fr_append [of b] by (simp only: switchPath_english_page [OF x] if_True)
  ultimately show ?thesis by (simp only: take_fr)
qed

lemma switchLanguage_navigation:
  assumes "lang = 0 \<or> lang = 1"
  shows "switchLanguage lang u =
           (if switchPath lang (pathname u) = pathname u then NoNavigation
            else Navigate (url_toString (setPathname (switchPath lang (pathname u)) u)))"
  using assms by (auto simp: switchLanguage_def Let_def)

lemma url_toString_setPathname:
  "\<not> opaquePath u \<Longrightarrow>
     url_toString (setPathname v u) =
       beforePath u @ v @
       (case query u of None \<Rightarrow> [] | Some qs \<Rightarrow> cu CHR ''?'' # qs) @
       (case fragment u of None \<Rightarrow> [] | Some f \<Rightarrow> cu CHR ''#'' # f)"
  "opaquePath u \<Longrightarrow> url_toString (setPathname v u) = url_toString u"
  by (simp_all add: url_toString_def setPathname_def)

lemma switchLanguage_hierarchical:
  assumes "lang = 0 \<or> lang = 1" and "\<not> opaquePath u"
  shows "switchLanguage lang u =
           (if switchPath lang (pathname u) = pathname u then NoNavigation
            else Navigate (beforePath u @ switchPath lang (pathname u) @
                   (case query u of None \<Rightarrow> [] | Some qs \<Rightarrow> cu CHR ''?'' # qs) @
                   (case fragment u of None \<Rightarrow> [] | Some f \<Rightarrow> cu CHR ''#'' # f)))"
  using assms by (simp add: switchLanguage_navigation url_toString_setPathname)

lemma switchLanguage_opaque:
  assumes "lang = 0 \<or> lang = 1" and "opaquePath u"
  shows "switchLanguage lang u =
           (if switchPath lang (pathname u) = pathname u then NoNavigation
            else Navigate (url_toString u))"
  using assms by (simp add: switchLanguage_navigation url_toString_setPathname)

subsection \<open>The earlier \<open>switchLanguage\<close>\<close>

lemma switchLanguage_v1_french_page:
  assumes "map lowerAscii x = str ''.html''"
  shows "switchLanguage_v1 0 (b @ x) =
           (if endsWithCI (str ''-fr'') b then NoNavigation else Navigate (b @ str ''-fr'' @ x))"
proof -
  have "b @ str ''-fr'' @ x \<noteq> b @ x" by (simp add: str_def)
  then show ?thesis
    using testHtml_page [OF assms, of b] testFrHtml_page [OF assms, of b] html_length [OF assms]
    by (simp add: switchLanguage_v1_def insertFr_def)
qed

lemma switchLanguage_v1_english_page:
  assumes "map lowerAscii x = str ''.html''"
  shows "switchLanguage_v1 1 (b @ x) =
           (if endsWithCI (str ''-fr'') b then Navigate (take (length b - 3) b @ x)
            else NoNavigation)"
proof (cases "endsWithCI (str ''-fr'') b")
  case True
  then have "3 \<le> length b" by (simp add: endsWithCI_def str_def)
  then have "length (take (length b - 3) b @ x) \<noteq> length (b @ x)" by simp
  then have "take (length b - 3) b @ x \<noteq> b @ x" by metis
  with True show ?thesis
    using testFrHtml_page [OF assms, of b] html_length [OF assms]
    by (simp add: switchLanguage_v1_def removeFr_def)
next
  case False
  then show ?thesis
    using testFrHtml_page [OF assms, of b]
    by (simp add: switchLanguage_v1_def removeFr_def)
qed

lemma switchLanguage_v1_back:
  assumes "map lowerAscii x = str ''.html''"
  shows "switchLanguage_v1 1 (b @ str ''-fr'' @ x) = Navigate (b @ x)"
proof -
  have "switchLanguage_v1 1 ((b @ str ''-fr'') @ x) =
          Navigate (take (length (b @ str ''-fr'') - 3) (b @ str ''-fr'') @ x)"
    using endsWithCI_fr_append [of b]
    by (simp only: switchLanguage_v1_english_page [OF assms] if_True)
  then show ?thesis by (simp only: take_fr append_assoc)
qed

text \<open>
  C6 (as amended). For a page path, written as a stem followed by an extension that is
  ".html" in any letter case, both copies of the locale switch insert "-fr" immediately
  before the extension on the French switch unless the stem already ends in "-fr" (then
  nothing changes and there is no navigation), and remove a "-fr" that ends the stem on
  the English switch. Switching a page without the suffix to French and back to English
  gives the original path, and the French switch is idempotent (no "-fr-fr").
  The switchLanguage of language.js moreover completes a path that is not a page with
  "/index.html" first, does not navigate when the new path equals the current one, and
  otherwise assigns the page's address with its query string and fragment unchanged:
  on a hierarchical path the address with the new path in place of the old one, on an
  opaque path the address as it is.
\<close>

theorem switchLanguage_locale_transform:
  assumes "map lowerAscii x = str ''.html''"
  shows "switchPath 0 (b @ x) =
           (if endsWithCI (str ''-fr'') b then b @ x else b @ str ''-fr'' @ x)
    \<and> switchPath 1 (b @ x) =
           (if endsWithCI (str ''-fr'') b then take (length b - 3) b @ x else b @ x)
    \<and> (\<not> testHtml q \<longrightarrow>
          switchPath lang q =
            switchPath lang
              ((if endsWith q (str ''/'') then q else q @ str ''/'') @ str ''index.html''))
    \<and> (lang = 0 \<or> lang = 1 \<longrightarrow> \<not> opaquePath u \<longrightarrow>
          switchLanguage lang u =
            (if switchPath lang (pathname u) = pathname u then NoNavigation
             else Navigate (beforePath u @ switchPath lang (pathname u) @
                    (case query u of None \<Rightarrow> [] | Some qs \<Rightarrow> cu CHR ''?'' # qs) @
                    (case fragment u of None \<Rightarrow> [] | Some f \<Rightarrow> cu CHR ''#'' # f))))
    \<and> (lang = 0 \<or> lang = 1 \<longrightarrow> opaquePath u \<longrightarrow>
          switchLanguage lang u =
            (if switchPath lang (pathname u) = pathname u then NoNavigation
             else Navigate (url_toString u)))
    \<and> (\<not> endsWithCI (str ''-fr'') b \<longrightarrow> switchPath 1 (switchPath 0 (b @ x)) = b @ x)
    \<and> switchPath 0 (switchPath 0 q) = switchPath 0 q
    \<and> switchLanguage_v1 0 (b @ x) =
           (if endsWithCI (str ''-fr'') b then NoNavigation else Navigate (b @ str ''-fr'' @ x))
    \<and> switchLanguage_v1 1 (b @ x) =
           (if endsWithCI (str ''-fr'') b then Navigate (take (length b - 3) b @ x)
            else NoNavigation)
    \<and> switchLanguage_v1 1 (b @ str ''-fr'' @ x) = Navigate (b @ x)"
proof -
  note page = switchPath_french_page [OF assms, of b] switchPath_english_page [OF assms, of b]
  note index = switchPath_normalizes [of q lang]
  note nav = switchLanguage_hierarchical [of lang u] switchLanguage_opaque [of lang u]
  note trip = switchPath_round_trip [OF assms, of b] switchPath_french_idem [of q]
  note old = switchLanguage_v1_french_page [OF assms, of b]
    switchLanguage_v1_english_page [OF assms, of b] switchLanguage_v1_back [OF assms, of b]
  from page index nav trip old show ?thesis by blast
qed

theorem switchLanguage_locale_transform_witness:
  "map lowerAscii (str ''.html'') = str ''.html''
   \<and> switchPath 0 (str ''/page.html'') = str ''/page-fr.html''
   \<and> switchPath 1 (str ''/page-fr.html'') = str ''/page.html''
   \<and> switchPath 0 (str ''/page-fr.html'') = str ''/page-fr.html''
   \<and> switchLanguage 0 \<lparr>beforePath = str ''https://example.org'', opaquePath = False,
        pathname = str ''/page-fr.html'', query = Some (str ''a=1''),
        fragment = Some (str ''top'')\<rparr> = NoNavigation
   \<and> switchLanguage 0 \<lparr>beforePath = str ''https://example.org'', opaquePath = False,
        pathname = str ''/page.html'', query = Some (str ''a=1''),
        fragment = Some []\<rparr> =
       Navigate (str ''https://example.org/page-fr.html?a=1#'')
   \<and> switchLanguage 1 \<lparr>beforePath = str ''https://example.org'', opaquePath = False,
        pathname = str ''/'', query = None, fragment = None\<rparr> =
       Navigate (str ''https://example.org/index.html'')
   \<and> switchPath 0 (str ''/docs'') = switchPath 0 (str ''/docs/index.html'')
   \<and> switchLanguage 1 \<lparr>beforePath = str ''blob:'', opaquePath = True,
        pathname = str ''https://example.org/page-fr.html'', query = None,
        fragment = Some (str ''top'')\<rparr> =
       Navigate (str ''blob:https://example.org/page-fr.html#top'')
   \<and> switchLanguage_v1 0 (str ''/page.html'') = Navigate (str ''/page-fr.html'')
   \<and> switchLanguage_v1 1 (str ''/page-fr.html'') = Navigate (str ''/page.html'')
   \<and> switchLanguage_v1 0 (str ''/page-fr.html'') = NoNavigation"
proof -
  have x: "map lowerAscii (str ''.html'') = str ''.html''" by (rule index_html)
  have nfr: "\<not> endsWithCI (str ''-fr'') (str ''/page'')"
    by (simp add: endsWithCI_def str_def lowerAscii_def cu_def)
  have fr: "endsWithCI (str ''-fr'') (str ''/page-fr'')"
    by (simp add: endsWithCI_def str_def lowerAscii_def cu_def)
  have p: "str ''/page'' @ str ''.html'' = str ''/page.html''"
    "str ''/page'' @ str ''-fr'' @ str ''.html'' = str ''/page-fr.html''"
    "str ''/page-fr'' @ str ''.html'' = str ''/page-fr.html''"
    by (simp_all add: str_def)
  let ?u = "\<lparr>beforePath = str ''https://example.org'', opaquePath = False,
        pathname = str ''/page.html'', query = Some (str ''a=1''), fragment = Some []\<rparr>"
  let ?o = "\<lparr>beforePath = str ''blob:'', opaquePath = True,
        pathname = str ''https://example.org/page-fr.html'', query = None,
        fragment = Some (str ''top'')\<rparr>"
  note T = switchLanguage_locale_transform [OF x, of "str ''/page''" "str ''/docs''" 0 ?u]
  note F = switchLanguage_locale_transform [OF x, of "str ''/page-fr''" "[]" 0 ?u]
  note E = switchLanguage_locale_transform [OF x, of "str ''/page''" "[]" 1 ?o]
  have docs: "\<not> testHtml (str ''/docs'')" "\<not> endsWith (str ''/docs'') (str ''/'')"
    "(str ''/docs'' @ str ''/'') @ str ''index.html'' = str ''/docs/index.html''"
    by (simp_all add: path_eval)
  from T docs have idx: "switchPath 0 (str ''/docs'') = switchPath 0 (str ''/docs/index.html'')"
    by simp
  have "switchPath 1 (pathname ?o) \<noteq> pathname ?o" by (simp add: path_eval)
  with E have opq: "switchLanguage 1 ?o = Navigate (url_toString ?o)" by simp
  have "url_toString ?o = str ''blob:https://example.org/page-fr.html#top''"
    by (simp add: url_toString_def str_def cu_def)
  with opq have opq': "switchLanguage 1 ?o = Navigate (str ''blob:https://example.org/page-fr.html#top'')"
    by simp
  from T nfr have a: "switchPath 0 (str ''/page'' @ str ''.html'') =
      str ''/page'' @ str ''-fr'' @ str ''.html''"
    by simp
  from T nfr have "switchPath 1 (switchPath 0 (str ''/page'' @ str ''.html'')) =
      str ''/page'' @ str ''.html''"
    by blast
  with a have "switchPath 1 (str ''/page'' @ str ''-fr'' @ str ''.html'') =
      str ''/page'' @ str ''.html''"
    by simp
  with a have sp: "switchPath 0 (str ''/page.html'') = str ''/page-fr.html''"
    "switchPath 1 (str ''/page-fr.html'') = str ''/page.html''"
    by (simp_all add: p)
  have ne: "str ''/page-fr.html'' \<noteq> str ''/page.html''" by (simp add: str_def)
  from T have "switchLanguage 0 ?u =
      (if switchPath 0 (pathname ?u) = pathname ?u then NoNavigation
       else Navigate (beforePath ?u @ switchPath 0 (pathname ?u) @
              (case query ?u of None \<Rightarrow> [] | Some qs \<Rightarrow> cu CHR ''?'' # qs) @
              (case fragment ?u of None \<Rightarrow> [] | Some f \<Rightarrow> cu CHR ''#'' # f)))"
    by simp
  with sp(1) ne have nav: "switchLanguage 0 ?u =
      Navigate (str ''https://example.org/page-fr.html?a=1#'')"
    by (simp add: str_def cu_def)
  from T nfr have o1: "switchLanguage_v1 0 (str ''/page'' @ str ''.html'') =
      Navigate (str ''/page'' @ str ''-fr'' @ str ''.html'')"
    by simp
  from T have o2: "switchLanguage_v1 1 (str ''/page'' @ str ''-fr'' @ str ''.html'') =
      Navigate (str ''/page'' @ str ''.html'')"
    by blast
  from F fr have o3: "switchLanguage_v1 0 (str ''/page-fr'' @ str ''.html'') = NoNavigation"
    by simp
  have "switchPath 0 (str ''/page-fr.html'') = str ''/page-fr.html''"
    by (simp add: path_eval)
  moreover have "switchLanguage 0 \<lparr>beforePath = str ''https://example.org'', opaquePath = False,
        pathname = str ''/page-fr.html'', query = Some (str ''a=1''),
        fragment = Some (str ''top'')\<rparr> = NoNavigation"
    by (simp add: switchLanguage_def path_eval)
  moreover have "switchLanguage 1 \<lparr>beforePath = str ''https://example.org'', opaquePath = False,
        pathname = str ''/'', query = None, fragment = None\<rparr> =
       Navigate (str ''https://example.org/index.html'')"
    by (simp add: switchLanguage_def url_toString_def setPathname_def path_eval)
  ultimately show ?thesis using x sp nav o1 o2 o3 idx opq' by (simp add: p)
qed

text \<open>
  The claim as stated fails on the earlier switchLanguage and on a page with an opaque
  path. From /page.html?a=1#top the earlier function assigns the path /page-fr.html
  alone, an address without the query string and the fragment, where the function of
  language.js assigns the whole address. On the path / the earlier function does not
  navigate, where the function of language.js goes to the index page. On about:blank the
  function of language.js assigns the address of the page itself.
\<close>

theorem switchLanguage_v1_bare_path:
  "switchLanguage_v1 0
     (pathname \<lparr>beforePath = str ''https://example.org'', opaquePath = False,
        pathname = str ''/page.html'', query = Some (str ''a=1''),
        fragment = Some (str ''top'')\<rparr>) = Navigate (str ''/page-fr.html'')
   \<and> switchLanguage 0 \<lparr>beforePath = str ''https://example.org'', opaquePath = False,
        pathname = str ''/page.html'', query = Some (str ''a=1''),
        fragment = Some (str ''top'')\<rparr> =
       Navigate (str ''https://example.org/page-fr.html?a=1#top'')
   \<and> switchLanguage_v1 0 (str ''/'') = NoNavigation
   \<and> switchLanguage 0 \<lparr>beforePath = str ''https://example.org'', opaquePath = False,
        pathname = str ''/'', query = None, fragment = None\<rparr> =
       Navigate (str ''https://example.org/index-fr.html'')
   \<and> switchLanguage 0 \<lparr>beforePath = str ''about:'', opaquePath = True,
        pathname = str ''blank'', query = None, fragment = None\<rparr> =
       Navigate (str ''about:blank'')"
  by (simp add: switchLanguage_v1_def switchLanguage_def url_toString_def setPathname_def
      path_eval)

section \<open>Properties of \<open>showMessage\<close>\<close>

subsection \<open>The invariant holds in every reachable state\<close>

lemma messageId_inj: "messageId k = messageId k' \<longleftrightarrow> k = k'"
  by (cases k; cases k') (simp_all add: messageId_def str_def)

lemma in_allKinds [simp]: "k \<in> set allKinds"
  by (cases k) (simp_all add: allKinds_def)

lemma timerOk_iff:
  "timerOk s t \<longleftrightarrow>
     timer_div t \<in> set (bodyChildren s) \<and> timer_handle t \<noteq> 0 \<and> timer_handle t < nextHandle s \<and>
     (\<exists>k. div_id (divs s ! timer_div t) = messageId k) \<and>
     (\<forall>k. (messageTimers s k = Some (timer_handle t)) =
            (div_id (divs s ! timer_div t) = messageId k))"
  by (simp add: timerOk_def list_all_iff list_ex_iff Ball_def Bex_def)

lemma wellFormed_iff:
  "wellFormed s \<longleftrightarrow>
     (\<forall>t \<in> set (pending s). timerOk s t) \<and>
     distinct (map timer_handle (pending s)) \<and>
     0 < nextHandle s \<and>
     (\<forall>k h. messageTimers s k = Some h \<longrightarrow> h < nextHandle s) \<and>
     (\<forall>i \<in> set (bodyChildren s). i < length (divs s)) \<and>
     (\<forall>l \<in> set (listeners s). listenerOk s l)"
  by (auto simp: wellFormed_def list_all_iff Ball_def split: option.splits)

lemma wellFormed_initial: "wellFormed initialPage"
  by (simp add: wellFormed_iff initialPage_def)

lemma wellFormed_bodyParsed: "wellFormed s \<Longrightarrow> wellFormed (s\<lparr>bodyReady := True\<rparr>)"
  by (simp add: wellFormed_iff timerOk_iff listenerOk_def)

lemma div_id_hide [simp]:
  "div_id ((ds[i := (ds ! i)\<lparr>display := v\<rparr>]) ! j) = div_id (ds ! j)"
  by (cases "i < length ds"; cases "i = j"; simp add: list_update_beyond)

lemma div_id_show [simp]:
  "div_id ((ds[i := (ds ! i)\<lparr>textContent := m, display := v\<rparr>]) ! j) = div_id (ds ! j)"
  by (cases "i < length ds"; cases "i = j"; simp add: list_update_beyond)

lemma wellFormed_fireTimer: "wellFormed s \<Longrightarrow> wellFormed (fireTimer t s)"
  by (simp add: wellFormed_iff fireTimer_def timerOk_iff listenerOk_def distinct_map_filter)

lemma wellFormed_fold_fire: "wellFormed s \<Longrightarrow> wellFormed (foldl (\<lambda>s' t. fireTimer t s') s ts)"
  by (induction ts arbitrary: s) (simp_all add: wellFormed_fireTimer)

lemma wellFormed_now: "wellFormed s \<Longrightarrow> wellFormed (s\<lparr>now := n\<rparr>)"
  by (simp add: wellFormed_iff timerOk_iff listenerOk_def)

lemma wellFormed_elapse: "wellFormed s \<Longrightarrow> wellFormed (elapse dt s)"
  unfolding elapse_def Let_def by (intro wellFormed_fold_fire wellFormed_now)

lemma showOn_fields:
  "bodyReady (showOn k i msg d s) = bodyReady s"
  "bodyChildren (showOn k i msg d s) = bodyChildren s"
  "listeners (showOn k i msg d s) = listeners s"
  "now (showOn k i msg d s) = now s"
  "nextHandle (showOn k i msg d s) = Suc (nextHandle s)"
  "length (divs (showOn k i msg d s)) = length (divs s)"
  "div_id (divs (showOn k i msg d s) ! j) = div_id (divs s ! j)"
  "messageTimers (showOn k i msg d s) = (messageTimers s)(k := Some (nextHandle s))"
  "pending (showOn k i msg d s) =
     filter (\<lambda>t. messageTimers s k \<noteq> Some (timer_handle t) \<or> timer_handle t = 0) (pending s) @
     [\<lparr>timer_handle = nextHandle s, timer_due = now s + d, timer_div = i\<rparr>]"
  by (auto simp: showOn_def displayMessage_def setTimeout_def clearTimeout_def Let_def
      split: option.splits intro!: filter_cong)

lemma wellFormed_showOn:
  assumes wf: "wellFormed s" and i: "i \<in> set (bodyChildren s)"
    and k: "div_id (divs s ! i) = messageId k"
  shows "wellFormed (showOn k i msg d s)"
proof -
  let ?s' = "showOn k i msg d s"
  let ?new = "\<lparr>timer_handle = nextHandle s, timer_due = now s + d, timer_div = i\<rparr>"
  from wf have old: "\<And>t. t \<in> set (pending s) \<Longrightarrow> timerOk s t"
    and dist: "distinct (map timer_handle (pending s))"
    and pos: "0 < nextHandle s"
    and rec: "\<And>k h. messageTimers s k = Some h \<Longrightarrow> h < nextHandle s"
    and kids: "\<And>j. j \<in> set (bodyChildren s) \<Longrightarrow> j < length (divs s)"
    and lis: "\<And>l. l \<in> set (listeners s) \<Longrightarrow> listenerOk s l"
    by (auto simp: wellFormed_iff)
  have new: "timerOk ?s' ?new"
    using i k pos rec by (auto simp: timerOk_iff showOn_fields messageId_inj)
  have kept: "timerOk ?s' t" if "t \<in> set (pending s)"
    "messageTimers s k \<noteq> Some (timer_handle t) \<or> timer_handle t = 0" for t
    using old [OF that(1)] that(2) by (auto simp: timerOk_iff showOn_fields)
  have fresh: "nextHandle s \<notin> timer_handle ` set (pending s)"
    using old by (force simp: timerOk_iff)
  have "\<forall>t \<in> set (pending ?s'). timerOk ?s' t"
    using new kept by (auto simp: showOn_fields(9))
  moreover have "distinct (map timer_handle (pending ?s'))"
    using dist fresh by (auto simp: showOn_fields(9) distinct_map_filter)
  moreover have "0 < nextHandle ?s'" by (simp add: showOn_fields)
  moreover have "\<forall>k' h. messageTimers ?s' k' = Some h \<longrightarrow> h < nextHandle ?s'"
    using rec by (auto simp: showOn_fields less_Suc_eq)
  moreover have "\<forall>j \<in> set (bodyChildren ?s'). j < length (divs ?s')"
    using kids by (simp add: showOn_fields)
  moreover have "\<forall>l \<in> set (listeners ?s'). listenerOk ?s' l"
    using lis by (auto simp: showOn_fields listenerOk_def)
  ultimately show ?thesis unfolding wellFormed_iff by blast
qed

lemma getElementById_Some:
  "getElementById s ident = Some i \<Longrightarrow> i \<in> set (bodyChildren s) \<and> div_id (divs s ! i) = ident"
  by (auto simp: getElementById_def find_Some_iff)

lemma getElementById_None:
  "getElementById s ident = None \<Longrightarrow> j \<in> set (bodyChildren s) \<Longrightarrow> div_id (divs s ! j) \<noteq> ident"
  by (auto simp: getElementById_def find_None_iff)

lemma wellFormed_create:
  assumes wf: "wellFormed s"
  shows "wellFormed (s\<lparr>divs := divs s @ [newDiv k], bodyChildren := length (divs s) # bodyChildren s\<rparr>)"
    (is "wellFormed ?s'")
proof -
  from wf have kids: "\<And>j. j \<in> set (bodyChildren s) \<Longrightarrow> j < length (divs s)"
    by (auto simp: wellFormed_iff)
  have ids: "div_id (divs ?s' ! j) = div_id (divs s ! j)" if "j < length (divs s)" for j
    using that by (simp add: nth_append)
  have "timerOk ?s' t" if "t \<in> set (pending s)" for t
  proof -
    from wf that have ok: "timerOk s t" by (auto simp: wellFormed_iff)
    then have "timer_div t < length (divs s)" using kids by (simp add: timerOk_iff)
    from ids [OF this] ok show ?thesis by (simp add: timerOk_iff)
  qed
  moreover have "listenerOk ?s' l" if "l \<in> set (listeners s)" for l
  proof -
    from wf that have "listenerOk s l" by (auto simp: wellFormed_iff)
    then show ?thesis by (auto simp: listenerOk_def nth_append)
  qed
  ultimately show ?thesis
    using wf kids by (auto simp: wellFormed_iff less_Suc_eq)
qed

lemma wellFormed_defer:
  assumes wf: "wellFormed s"
  shows "wellFormed (s\<lparr>divs := divs s @ [newDiv k],
     listeners := listeners s @ [(k, msg, d, length (divs s))]\<rparr>)"
    (is "wellFormed ?s'")
proof -
  from wf have kids: "\<And>j. j \<in> set (bodyChildren s) \<Longrightarrow> j < length (divs s)"
    by (auto simp: wellFormed_iff)
  have ids: "div_id (divs ?s' ! j) = div_id (divs s ! j)" if "j < length (divs s)" for j
    using that by (simp add: nth_append)
  have "timerOk ?s' t" if "t \<in> set (pending s)" for t
  proof -
    from wf that have ok: "timerOk s t" by (auto simp: wellFormed_iff)
    then have "timer_div t < length (divs s)" using kids by (simp add: timerOk_iff)
    from ids [OF this] ok show ?thesis by (simp add: timerOk_iff)
  qed
  moreover have "listenerOk ?s' l" if "l \<in> set (listeners s)" for l
  proof -
    from wf that have "listenerOk s l" by (auto simp: wellFormed_iff)
    then show ?thesis by (auto simp: listenerOk_def nth_append)
  qed
  moreover have "listenerOk ?s' (k, msg, d, length (divs s))"
    by (simp add: listenerOk_def newDiv_def messageId_def)
  ultimately show ?thesis
    using wf kids by (auto simp: wellFormed_iff less_Suc_eq)
qed

lemma showMessage_cases:
  "showMessage k msg d s =
     (case getElementById s (messageId k) of
        Some i \<Rightarrow> showOn k i msg d s
      | None \<Rightarrow>
          if bodyReady s
          then showOn k (length (divs s)) msg d
                 (s\<lparr>divs := divs s @ [newDiv k], bodyChildren := length (divs s) # bodyChildren s\<rparr>)
          else s\<lparr>divs := divs s @ [newDiv k],
                 listeners := listeners s @ [(k, msg, d, length (divs s))]\<rparr>)"
  by (simp add: showMessage_def messageId_def Let_def split: option.splits)

lemma wellFormed_showMessage:
  assumes wf: "wellFormed s"
  shows "wellFormed (showMessage k msg d s)"
proof (cases "getElementById s (messageId k)")
  case (Some i)
  with getElementById_Some [OF Some] wf show ?thesis
    by (simp add: showMessage_cases wellFormed_showOn)
next
  case None
  show ?thesis
  proof (cases "bodyReady s")
    case True
    have "wellFormed (showOn k (length (divs s)) msg d
        (s\<lparr>divs := divs s @ [newDiv k], bodyChildren := length (divs s) # bodyChildren s\<rparr>))"
      by (rule wellFormed_showOn [OF wellFormed_create [OF wf]])
        (simp_all add: newDiv_def messageId_def)
    with None True show ?thesis by (simp add: showMessage_cases)
  next
    case False
    with None wellFormed_defer [OF wf] show ?thesis by (simp add: showMessage_cases)
  qed
qed

lemma runListener_fields:
  "listeners (runListener l s) = listeners s"
  "length (divs (runListener l s)) = length (divs s)"
  "div_id (divs (runListener l s) ! j) = div_id (divs s ! j)"
  by (auto simp: runListener_def displayMessage_def setTimeout_def Let_def split: prod.splits)

lemma listenerOk_runListener: "listenerOk s l \<Longrightarrow> listenerOk (runListener l' s) l"
  by (simp add: listenerOk_def runListener_fields split: prod.splits)

lemma wellFormed_runListener:
  assumes wf: "wellFormed s" and ok: "listenerOk s l"
  shows "wellFormed (runListener l s)"
proof -
  obtain k msg d i where l: "l = (k, msg, d, i)" by (cases l) auto
  show ?thesis
  proof (cases "getElementById s (messageId k) = None \<and> bodyReady s")
    case False
    with wf show ?thesis by (auto simp: runListener_def l messageId_def)
  next
    case True
    let ?s' = "runListener l s"
    let ?new = "\<lparr>timer_handle = nextHandle s, timer_due = now s + d, timer_div = i\<rparr>"
    from True have f:
      "bodyChildren ?s' = i # bodyChildren s"
      "nextHandle ?s' = Suc (nextHandle s)"
      "messageTimers ?s' = (messageTimers s)(k := Some (nextHandle s))"
      "pending ?s' = pending s @ [?new]"
      by (simp_all add: runListener_def l messageId_def displayMessage_def setTimeout_def)
    from wf have old: "\<And>t. t \<in> set (pending s) \<Longrightarrow> timerOk s t"
      and dist: "distinct (map timer_handle (pending s))"
      and pos: "0 < nextHandle s"
      and rec: "\<And>k h. messageTimers s k = Some h \<Longrightarrow> h < nextHandle s"
      and kids: "\<And>j. j \<in> set (bodyChildren s) \<Longrightarrow> j < length (divs s)"
      and lis: "\<And>l. l \<in> set (listeners s) \<Longrightarrow> listenerOk s l"
      by (auto simp: wellFormed_iff)
    from ok have i: "i < length (divs s)" "div_id (divs s ! i) = messageId k"
      by (simp_all add: listenerOk_def l)
    have new: "timerOk ?s' ?new"
      using i pos rec by (auto simp: timerOk_iff f runListener_fields messageId_inj)
    have kept: "timerOk ?s' t" if "t \<in> set (pending s)" for t
    proof -
      from old [OF that] have t: "timerOk s t" .
      then have "div_id (divs s ! timer_div t) \<noteq> messageId k"
        using getElementById_None [of s "messageId k" "timer_div t"] True
        by (simp add: timerOk_iff)
      with t show ?thesis by (auto simp: timerOk_iff f runListener_fields)
    qed
    have fresh: "nextHandle s \<notin> timer_handle ` set (pending s)"
      using old by (force simp: timerOk_iff)
    have "\<forall>t \<in> set (pending ?s'). timerOk ?s' t"
      using new kept by (auto simp: f)
    moreover have "distinct (map timer_handle (pending ?s'))"
      using dist fresh by (auto simp: f)
    moreover have "0 < nextHandle ?s'" by (simp add: f)
    moreover have "\<forall>k' h. messageTimers ?s' k' = Some h \<longrightarrow> h < nextHandle ?s'"
      using rec by (auto simp: f less_Suc_eq)
    moreover have "\<forall>j \<in> set (bodyChildren ?s'). j < length (divs ?s')"
      using kids i by (auto simp: f runListener_fields)
    moreover have "\<forall>l' \<in> set (listeners ?s'). listenerOk ?s' l'"
      using lis by (auto simp: runListener_fields intro: listenerOk_runListener)
    ultimately show ?thesis unfolding wellFormed_iff by blast
  qed
qed

lemma wellFormed_fold_listeners:
  "wellFormed s \<Longrightarrow> list_all (listenerOk s) ls \<Longrightarrow>
     wellFormed (foldl (\<lambda>s' l. runListener l s') s ls)"
proof (induction ls arbitrary: s)
  case Nil
  then show ?case by simp
next
  case (Cons l ls)
  from Cons.prems have "wellFormed (runListener l s)"
    by (simp add: wellFormed_runListener)
  moreover from Cons.prems have "list_all (listenerOk (runListener l s)) ls"
    by (auto simp: list_all_iff intro: listenerOk_runListener)
  ultimately show ?case using Cons.IH by simp
qed

lemma wellFormed_domContentLoaded: "wellFormed s \<Longrightarrow> wellFormed (domContentLoaded s)"
  unfolding domContentLoaded_def
  by (rule wellFormed_fold_listeners)
    (auto simp: wellFormed_iff timerOk_iff listenerOk_def list_all_iff)

lemma wellFormed_step: "wellFormed s \<Longrightarrow> wellFormed (step e s)"
  by (cases e)
    (simp_all add: wellFormed_showMessage wellFormed_bodyParsed wellFormed_domContentLoaded
      wellFormed_elapse)

lemma reachable_wellFormed: "reachable s \<Longrightarrow> wellFormed s"
  by (induction rule: reachable.induct) (simp_all add: wellFormed_initial wellFormed_step)

lemma reachable_run: "reachable (run es)"
proof -
  have "reachable (foldl (\<lambda>s e. step e s) s es)" if "reachable s" for s
    using that by (induction es arbitrary: s) (simp_all add: reachable_step)
  from this [OF reachable_init] show ?thesis by (simp add: run_def)
qed

subsection \<open>Timers and visible messages\<close>

lemma short_if_equal_keys:
  assumes "distinct (map f xs)" and "\<And>x. x \<in> set xs \<Longrightarrow> f x = c"
  shows "length xs \<le> 1"
proof (cases xs)
  case Nil
  then show ?thesis by simp
next
  case (Cons x ys)
  show ?thesis
  proof (cases ys)
    case Nil
    with Cons show ?thesis by simp
  next
    case (Cons y zs)
    with \<open>xs = x # ys\<close> assms(2) have "f x = c" "f y = c" by simp_all
    with Cons \<open>xs = x # ys\<close> assms(1) show ?thesis by simp
  qed
qed

lemma wellFormed_timerOk: "wellFormed s \<Longrightarrow> t \<in> set (pending s) \<Longrightarrow> timerOk s t"
  by (simp add: wellFormed_iff)

lemma timer_of_kind:
  assumes "wellFormed s" "t \<in> set (pending s)"
  shows "(div_id (divs s ! timer_div t) = messageId k) = (messageTimers s k = Some (timer_handle t))"
    and "timer_handle t \<noteq> 0" and "timer_div t < length (divs s)"
  using wellFormed_timerOk [OF assms] assms(1) by (auto simp: timerOk_iff wellFormed_iff)

lemma at_most_one_timer:
  assumes wf: "wellFormed s"
  shows "length (timersOf k s) \<le> 1"
proof (cases "messageTimers s k")
  case None
  have "timersOf k s = []"
    unfolding timersOf_def filter_empty_conv using timer_of_kind(1) [OF wf] None by simp
  then show ?thesis by simp
next
  case (Some h)
  show ?thesis
  proof (rule short_if_equal_keys [where f = timer_handle and c = h])
    from wf show "distinct (map timer_handle (timersOf k s))"
      by (simp add: timersOf_def wellFormed_iff distinct_map_filter)
  next
    fix t assume "t \<in> set (timersOf k s)"
    then show "timer_handle t = h"
      using timer_of_kind(1) [OF wf, of t k] Some by (simp add: timersOf_def)
  qed
qed

lemma timersOf_showOn_same:
  assumes wf: "wellFormed s" and k: "div_id (divs s ! i) = messageId k"
  shows "timersOf k (showOn k i msg d s) =
           [\<lparr>timer_handle = nextHandle s, timer_due = now s + d, timer_div = i\<rparr>]"
proof -
  have "filter (\<lambda>t. div_id (divs s ! timer_div t) = messageId k)
          (filter (\<lambda>t. messageTimers s k \<noteq> Some (timer_handle t) \<or> timer_handle t = 0) (pending s)) = []"
    unfolding filter_empty_conv
  proof
    fix t assume t: "t \<in> set (filter (\<lambda>t. messageTimers s k \<noteq> Some (timer_handle t) \<or> timer_handle t = 0) (pending s))"
    then have "t \<in> set (pending s)" by simp
    from timer_of_kind(1) [OF wf this, of k] timer_of_kind(2) [OF wf this] t
    show "div_id (divs s ! timer_div t) \<noteq> messageId k" by simp
  qed
  with k show ?thesis by (simp add: timersOf_def showOn_fields)
qed

lemma timersOf_showOn_other:
  assumes wf: "wellFormed s" and k: "div_id (divs s ! i) = messageId k" and ne: "k' \<noteq> k"
  shows "timersOf k' (showOn k i msg d s) = timersOf k' s"
proof -
  have "filter (\<lambda>t. div_id (divs s ! timer_div t) = messageId k')
          (filter (\<lambda>t. messageTimers s k \<noteq> Some (timer_handle t) \<or> timer_handle t = 0) (pending s)) =
        filter (\<lambda>t. div_id (divs s ! timer_div t) = messageId k') (pending s)"
    unfolding filter_filter
  proof (rule filter_cong [OF refl])
    fix t assume t: "t \<in> set (pending s)"
    show "((messageTimers s k \<noteq> Some (timer_handle t) \<or> timer_handle t = 0) \<and>
            div_id (divs s ! timer_div t) = messageId k') =
          (div_id (divs s ! timer_div t) = messageId k')"
      using timer_of_kind(1) [OF wf t, of k] ne by (auto simp: messageId_inj)
  qed
  with k ne show ?thesis by (simp add: timersOf_def showOn_fields messageId_inj)
qed

lemma timersOf_create:
  assumes wf: "wellFormed s"
  shows "timersOf k' (s\<lparr>divs := divs s @ [x], bodyChildren := c\<rparr>) = timersOf k' s"
  unfolding timersOf_def
  using timer_of_kind(3) [OF wf] by (auto intro!: filter_cong simp: nth_append)

lemma getElementById_showOn:
  "getElementById (showOn k i msg d s) ident = getElementById s ident"
  by (simp add: getElementById_def showOn_fields)

lemma shown_div:
  assumes "i < length (divs s)"
  shows "textContent (divs (showOn k i msg d s) ! i) = msg"
    and "display (divs (showOn k i msg d s) ! i) = str ''block''"
  using assms
  by (auto simp: showOn_def displayMessage_def setTimeout_def clearTimeout_def Let_def
      split: option.splits)

lemma other_div:
  assumes "j \<noteq> i"
  shows "divs (showOn k i msg d s) ! j = divs s ! j"
  using assms
  by (auto simp: showOn_def displayMessage_def setTimeout_def clearTimeout_def Let_def
      split: option.splits)

lemma visible_showOn_same:
  assumes "getElementById s (messageId k) = Some i" "i < length (divs s)"
  shows "visibleMessage k (showOn k i msg d s) = Some msg"
  using assms by (simp add: visibleMessage_def getElementById_showOn shown_div)

lemma visible_showOn_other:
  assumes k: "div_id (divs s ! i) = messageId k" and ne: "k' \<noteq> k"
  shows "visibleMessage k' (showOn k i msg d s) = visibleMessage k' s"
proof (cases "getElementById s (messageId k')")
  case None
  then show ?thesis by (simp add: visibleMessage_def getElementById_showOn)
next
  case (Some j)
  from getElementById_Some [OF Some] k ne have "j \<noteq> i" by (auto simp: messageId_inj)
  with Some show ?thesis by (simp add: visibleMessage_def getElementById_showOn other_div)
qed

lemma getElementById_create_same:
  "getElementById (s\<lparr>divs := divs s @ [newDiv k], bodyChildren := length (divs s) # bodyChildren s\<rparr>)
     (messageId k) = Some (length (divs s))"
  by (simp add: getElementById_def newDiv_def messageId_def)

lemma getElementById_create_other:
  assumes wf: "wellFormed s" and ne: "k' \<noteq> k"
  shows "getElementById (s\<lparr>divs := divs s @ [newDiv k], bodyChildren := length (divs s) # bodyChildren s\<rparr>)
     (messageId k') = getElementById s (messageId k')"
proof -
  have "div_id (newDiv k) \<noteq> messageId k'"
    using ne messageId_inj [of k k'] by (simp add: newDiv_def messageId_def)
  moreover have "find (\<lambda>j. div_id ((divs s @ [newDiv k]) ! j) = messageId k') (bodyChildren s) =
        find (\<lambda>j. div_id (divs s ! j) = messageId k') (bodyChildren s)"
    using wf by (intro find_cong) (auto simp: wellFormed_iff nth_append)
  ultimately show ?thesis by (simp add: getElementById_def)
qed

lemma visible_create_other:
  assumes wf: "wellFormed s" and ne: "k' \<noteq> k"
  shows "visibleMessage k' (s\<lparr>divs := divs s @ [newDiv k], bodyChildren := length (divs s) # bodyChildren s\<rparr>)
     = visibleMessage k' s"
proof (cases "getElementById s (messageId k')")
  case None
  then show ?thesis by (simp add: visibleMessage_def getElementById_create_other [OF wf ne])
next
  case (Some j)
  from getElementById_Some [OF Some] wf have "j < length (divs s)" by (auto simp: wellFormed_iff)
  with Some show ?thesis
    by (simp add: visibleMessage_def getElementById_create_other [OF wf ne] nth_append)
qed

lemma fireTimer_fields:
  "bodyChildren (fireTimer t s) = bodyChildren s"
  "div_id (divs (fireTimer t s) ! j) = div_id (divs s ! j)"
  "j \<noteq> timer_div t \<Longrightarrow> divs (fireTimer t s) ! j = divs s ! j"
  by (simp_all add: fireTimer_def)

lemma visible_fireTimer:
  assumes "div_id (divs s ! timer_div t) \<noteq> messageId k"
  shows "visibleMessage k (fireTimer t s) = visibleMessage k s"
proof -
  have g: "getElementById (fireTimer t s) (messageId k) = getElementById s (messageId k)"
    by (simp add: getElementById_def fireTimer_fields)
  show ?thesis
  proof (cases "getElementById s (messageId k)")
    case None
    with g show ?thesis by (simp add: visibleMessage_def)
  next
    case (Some j)
    from getElementById_Some [OF Some] assms have "j \<noteq> timer_div t" by auto
    with g Some show ?thesis by (simp add: visibleMessage_def fireTimer_fields)
  qed
qed

lemma visible_fold_fire:
  "\<forall>t \<in> set ts. div_id (divs s ! timer_div t) \<noteq> messageId k \<Longrightarrow>
     visibleMessage k (foldl (\<lambda>s' t. fireTimer t s') s ts) = visibleMessage k s"
proof (induction ts arbitrary: s)
  case Nil
  show ?case by simp
next
  case (Cons t ts)
  from Cons.prems have "\<forall>t' \<in> set ts. div_id (divs (fireTimer t s) ! timer_div t') \<noteq> messageId k"
    by (simp add: fireTimer_fields)
  from Cons.IH [OF this] Cons.prems show ?case by (simp add: visible_fireTimer)
qed

lemma visible_elapse:
  assumes "list_all (\<lambda>t. now s + dt < timer_due t) (timersOf k s)"
  shows "visibleMessage k (elapse dt s) = visibleMessage k s"
proof -
  let ?s1 = "s\<lparr>now := now s + dt\<rparr>"
  have "\<forall>t \<in> set (filter (\<lambda>t. timer_due t \<le> now ?s1) (pending ?s1)).
          div_id (divs ?s1 ! timer_div t) \<noteq> messageId k"
    using assms by (auto simp: list_all_iff timersOf_def)
  from visible_fold_fire [OF this] have "visibleMessage k (elapse dt s) = visibleMessage k ?s1"
    by (simp add: elapse_def Let_def)
  also have "\<dots> = visibleMessage k s"
    by (simp add: visibleMessage_def getElementById_def split: option.splits)
  finally show ?thesis .
qed

lemma showMessage_ready:
  assumes wf: "wellFormed s" and ready: "bodyReady s"
  shows "\<exists>i. timersOf k (showMessage k msg d s) =
            [\<lparr>timer_handle = nextHandle s, timer_due = now s + d, timer_div = i\<rparr>]"
    and "visibleMessage k (showMessage k msg d s) = Some msg"
    and "k' \<noteq> k \<Longrightarrow> timersOf k' (showMessage k msg d s) = timersOf k' s"
    and "k' \<noteq> k \<Longrightarrow> visibleMessage k' (showMessage k msg d s) = visibleMessage k' s"
proof -
  let ?c = "s\<lparr>divs := divs s @ [newDiv k], bodyChildren := length (divs s) # bodyChildren s\<rparr>"
  have wfc: "wellFormed ?c" by (rule wellFormed_create [OF wf])
  have idc: "div_id (divs ?c ! length (divs s)) = messageId k"
    by (simp add: newDiv_def messageId_def)
  show "\<exists>i. timersOf k (showMessage k msg d s) =
            [\<lparr>timer_handle = nextHandle s, timer_due = now s + d, timer_div = i\<rparr>]"
  proof (cases "getElementById s (messageId k)")
    case (Some i)
    with getElementById_Some [OF Some] timersOf_showOn_same [OF wf, of i k msg d]
    show ?thesis by (simp add: showMessage_cases)
  next
    case None
    with ready timersOf_showOn_same [OF wfc idc, of msg d]
    show ?thesis by (simp add: showMessage_cases)
  qed
  show "visibleMessage k (showMessage k msg d s) = Some msg"
  proof (cases "getElementById s (messageId k)")
    case (Some i)
    from getElementById_Some [OF Some] wf have "i < length (divs s)"
      by (auto simp: wellFormed_iff)
    with Some show ?thesis by (simp add: showMessage_cases visible_showOn_same)
  next
    case None
    have "visibleMessage k (showOn k (length (divs s)) msg d ?c) = Some msg"
      by (rule visible_showOn_same [OF getElementById_create_same]) simp
    with None ready show ?thesis by (simp add: showMessage_cases)
  qed
  show "timersOf k' (showMessage k msg d s) = timersOf k' s" if ne: "k' \<noteq> k"
  proof (cases "getElementById s (messageId k)")
    case (Some i)
    with getElementById_Some [OF Some] timersOf_showOn_other [OF wf _ ne, of i msg d]
    show ?thesis by (simp add: showMessage_cases)
  next
    case None
    with ready timersOf_showOn_other [OF wfc idc ne, of msg d] timersOf_create [OF wf]
    show ?thesis by (simp add: showMessage_cases)
  qed
  show "visibleMessage k' (showMessage k msg d s) = visibleMessage k' s" if ne: "k' \<noteq> k"
  proof (cases "getElementById s (messageId k)")
    case (Some i)
    with getElementById_Some [OF Some] visible_showOn_other [OF _ ne, of s i msg d]
    show ?thesis by (simp add: showMessage_cases)
  next
    case None
    with ready visible_showOn_other [OF idc ne, of msg d] visible_create_other [OF wf ne]
    show ?thesis by (simp add: showMessage_cases)
  qed
qed

lemmas page_eval = run_def initialPage_def showMessage_def showOn_def getElementById_def
  setTimeout_def clearTimeout_def displayMessage_def newDiv_def elapse_def fireTimer_def
  timersOf_def visibleMessage_def messageId_def domContentLoaded_def runListener_def
  Let_def str_def

subsection \<open>The earlier \<open>showError\<close>, \<open>showSuccess\<close> and \<open>showInfo\<close>\<close>

lemma showKind_v1_found:
  assumes "getElementById s (messageId k) = Some i"
  shows "showKind_v1 k msg s =
    Inr (s\<lparr>divs := (divs s)[i := (divs s ! i)\<lparr>div_id := messageId k, div_className := messageId k,
                 textContent := msg, display := str ''block''\<rparr>],
          pending := pending s @
            [\<lparr>timer_handle = nextHandle s, timer_due = now s + 5000, timer_div = i\<rparr>],
          nextHandle := nextHandle s + 1\<rparr>)"
  using assms by (simp add: showKind_v1_def messageId_def setTimeout_def Let_def)

lemma showKind_v1_created:
  assumes "getElementById s (messageId k) = None" and "bodyReady s"
  shows "showKind_v1 k msg s =
    Inr (s\<lparr>divs := divs s @
            [\<lparr>div_id = messageId k, div_className = messageId k, div_role = [],
              div_ariaLive = [], textContent = msg, display = str ''block''\<rparr>],
          bodyChildren := length (divs s) # bodyChildren s,
          pending := pending s @
            [\<lparr>timer_handle = nextHandle s, timer_due = now s + 5000,
              timer_div = length (divs s)\<rparr>],
          nextHandle := nextHandle s + 1\<rparr>)"
  using assms by (simp add: showKind_v1_def messageId_def setTimeout_def Let_def)

lemma showKind_v1_raises:
  assumes "getElementById s (messageId k) = None" and "\<not> bodyReady s"
  shows "showKind_v1 k msg s = Inl TypeError"
  using assms by (simp add: showKind_v1_def messageId_def Let_def)

lemma showKind_v1_returns:
  assumes "bodyReady s"
  shows "\<exists>s'. showKind_v1 k msg s = Inr s'"
proof (cases "getElementById s (messageId k)")
  case None
  from showKind_v1_created [OF None assms] show ?thesis by blast
next
  case (Some i)
  from showKind_v1_found [OF Some] show ?thesis by blast
qed

lemma div_id_relabel:
  assumes "div_id (ds ! i) = ident" and "div_id d = ident"
  shows "div_id (ds[i := d] ! j) = div_id (ds ! j)"
proof (cases "i < length ds")
  case True
  with assms show ?thesis by (auto simp: nth_list_update)
next
  case False
  then have "ds[i := d] = ds" by (simp add: list_update_beyond)
  then show ?thesis by simp
qed

lemma wellFormed_v1_initial: "wellFormed_v1 initialPage"
  by (simp add: wellFormed_v1_def initialPage_def)

lemma wellFormed_v1_showKind:
  assumes wf: "wellFormed_v1 s" and r: "showKind_v1 k msg s = Inr s'"
  shows "wellFormed_v1 s'"
proof (cases "getElementById s (messageId k)")
  case None
  show ?thesis
  proof (cases "bodyReady s")
    case True
    from r wf show ?thesis
      unfolding showKind_v1_created [OF None True]
      by (auto simp: wellFormed_v1_def list_all_iff less_Suc_eq)
  next
    case False
    from r show ?thesis unfolding showKind_v1_raises [OF None False] by simp
  qed
next
  case (Some i)
  from getElementById_Some [OF Some] wf have "i < length (divs s)"
    by (auto simp: wellFormed_v1_def list_all_iff)
  with r wf show ?thesis
    unfolding showKind_v1_found [OF Some]
    by (auto simp: wellFormed_v1_def list_all_iff)
qed

lemma wellFormed_v1_fireTimer: "wellFormed_v1 s \<Longrightarrow> wellFormed_v1 (fireTimer t s)"
  by (auto simp: wellFormed_v1_def fireTimer_def list_all_iff)

lemma wellFormed_v1_fold_fire:
  "wellFormed_v1 s \<Longrightarrow> wellFormed_v1 (foldl (\<lambda>s' t. fireTimer t s') s ts)"
  by (induction ts arbitrary: s) (simp_all add: wellFormed_v1_fireTimer)

lemma wellFormed_v1_elapse: "wellFormed_v1 s \<Longrightarrow> wellFormed_v1 (elapse dt s)"
  unfolding elapse_def Let_def
  by (rule wellFormed_v1_fold_fire) (simp add: wellFormed_v1_def)

lemma wellFormed_v1_call:
  "wellFormed_v1 s \<Longrightarrow> wellFormed_v1 (case showKind_v1 k msg s of Inr s' \<Rightarrow> s' | Inl e \<Rightarrow> s)"
  by (cases "showKind_v1 k msg s") (simp_all add: wellFormed_v1_showKind)

lemma wellFormed_v1_step: "wellFormed_v1 s \<Longrightarrow> wellFormed_v1 (step_v1 e s)"
proof (cases e)
  case (ShowError_v1 msg)
  assume "wellFormed_v1 s"
  with ShowError_v1 show ?thesis by (simp add: showError_v1_def wellFormed_v1_call)
next
  case (ShowSuccess_v1 msg)
  assume "wellFormed_v1 s"
  with ShowSuccess_v1 show ?thesis by (simp add: showSuccess_v1_def wellFormed_v1_call)
next
  case (ShowInfo_v1 msg)
  assume "wellFormed_v1 s"
  with ShowInfo_v1 show ?thesis by (simp add: showInfo_v1_def wellFormed_v1_call)
next
  case BodyParsed_v1
  assume "wellFormed_v1 s"
  with BodyParsed_v1 show ?thesis by (simp add: wellFormed_v1_def)
next
  case (Elapse_v1 dt)
  assume "wellFormed_v1 s"
  with Elapse_v1 show ?thesis by (simp add: wellFormed_v1_elapse)
qed

lemma reachable_v1_wellFormed: "reachable_v1 s \<Longrightarrow> wellFormed_v1 s"
  by (induction rule: reachable_v1.induct) (simp_all add: wellFormed_v1_initial wellFormed_v1_step)

lemma reachable_v1_run: "reachable_v1 (run_v1 es)"
proof -
  have "reachable_v1 (foldl (\<lambda>s e. step_v1 e s) s es)" if "reachable_v1 s" for s
    using that by (induction es arbitrary: s) (simp_all add: reachable_v1_step)
  from this [OF reachable_v1_init] show ?thesis by (simp add: run_v1_def)
qed

lemma showKind_v1_shows:
  assumes wf: "wellFormed_v1 s" and r: "showKind_v1 k msg s = Inr s'"
  shows "visibleMessage k s' = Some msg"
proof (cases "getElementById s (messageId k)")
  case None
  show ?thesis
  proof (cases "bodyReady s")
    case True
    from r show ?thesis
      unfolding showKind_v1_created [OF None True]
      by (auto simp: visibleMessage_def getElementById_def)
  next
    case False
    from r show ?thesis unfolding showKind_v1_raises [OF None False] by simp
  qed
next
  case (Some i)
  note at = getElementById_Some [OF Some]
  with wf have len: "i < length (divs s)" by (auto simp: wellFormed_v1_def list_all_iff)
  let ?d = "(divs s ! i)\<lparr>div_id := messageId k, div_className := messageId k,
                 textContent := msg, display := str ''block''\<rparr>"
  have ids: "div_id ((divs s)[i := ?d] ! j) = div_id (divs s ! j)" for j
    using at by (intro div_id_relabel [where ident = "messageId k"]) simp_all
  from r have s': "divs s' = (divs s)[i := ?d]" "bodyChildren s' = bodyChildren s"
    unfolding showKind_v1_found [OF Some] by auto
  have "getElementById s' (messageId k) = Some i"
    using Some by (simp add: getElementById_def s' ids)
  with len show ?thesis by (simp add: visibleMessage_def s')
qed

lemma showKind_v1_other_kinds:
  assumes wf: "wellFormed_v1 s" and r: "showKind_v1 k msg s = Inr s'" and ne: "k' \<noteq> k"
  shows "timersOf k' s' = timersOf k' s" and "visibleMessage k' s' = visibleMessage k' s"
proof -
  from ne have idne: "messageId k \<noteq> messageId k'" by (auto simp: messageId_inj)
  from wf have old: "\<And>t. t \<in> set (pending s) \<Longrightarrow> timer_div t < length (divs s)"
    and kids: "\<And>j. j \<in> set (bodyChildren s) \<Longrightarrow> j < length (divs s)"
    by (auto simp: wellFormed_v1_def list_all_iff)
  have "timersOf k' s' = timersOf k' s \<and> visibleMessage k' s' = visibleMessage k' s"
  proof (cases "getElementById s (messageId k)")
    case None
    show ?thesis
    proof (cases "bodyReady s")
      case False
      from r show ?thesis unfolding showKind_v1_raises [OF None False] by simp
    next
      case True
      let ?d = "\<lparr>div_id = messageId k, div_className = messageId k, div_role = [],
              div_ariaLive = [], textContent = msg, display = str ''block''\<rparr>"
      from r have s': "divs s' = divs s @ [?d]"
        "bodyChildren s' = length (divs s) # bodyChildren s"
        "pending s' = pending s @
            [\<lparr>timer_handle = nextHandle s, timer_due = now s + 5000,
              timer_div = length (divs s)\<rparr>]"
        unfolding showKind_v1_created [OF None True] by auto
      have t: "timersOf k' s' = timersOf k' s"
        using old idne by (auto simp: timersOf_def s' nth_append intro!: filter_cong)
      have "find (\<lambda>j. div_id ((divs s @ [?d]) ! j) = messageId k') (bodyChildren s) =
            find (\<lambda>j. div_id (divs s ! j) = messageId k') (bodyChildren s)"
        using kids by (intro find_cong) (auto simp: nth_append)
      with idne have g: "getElementById s' (messageId k') = getElementById s (messageId k')"
        by (simp add: getElementById_def s')
      have "visibleMessage k' s' = visibleMessage k' s"
      proof (cases "getElementById s (messageId k')")
        case None
        with g show ?thesis by (simp add: visibleMessage_def)
      next
        case (Some j)
        from getElementById_Some [OF Some] kids have "j < length (divs s)" by auto
        with g Some show ?thesis by (simp add: visibleMessage_def s' nth_append)
      qed
      with t show ?thesis by simp
    qed
  next
    case (Some i)
    note at = getElementById_Some [OF Some]
    let ?d = "(divs s ! i)\<lparr>div_id := messageId k, div_className := messageId k,
                 textContent := msg, display := str ''block''\<rparr>"
    have ids: "div_id ((divs s)[i := ?d] ! j) = div_id (divs s ! j)" for j
      using at by (intro div_id_relabel [where ident = "messageId k"]) simp_all
    from r have s': "divs s' = (divs s)[i := ?d]" "bodyChildren s' = bodyChildren s"
      "pending s' = pending s @
            [\<lparr>timer_handle = nextHandle s, timer_due = now s + 5000, timer_div = i\<rparr>]"
      unfolding showKind_v1_found [OF Some] by auto
    have t: "timersOf k' s' = timersOf k' s"
      using at idne by (simp add: timersOf_def s' ids)
    have g: "getElementById s' (messageId k') = getElementById s (messageId k')"
      by (simp add: getElementById_def s' ids)
    have "visibleMessage k' s' = visibleMessage k' s"
    proof (cases "getElementById s (messageId k')")
      case None
      with g show ?thesis by (simp add: visibleMessage_def)
    next
      case (Some j)
      from getElementById_Some [OF Some] at idne have "j \<noteq> i" by auto
      with g Some show ?thesis by (simp add: visibleMessage_def s')
    qed
    with t show ?thesis by simp
  qed
  then show "timersOf k' s' = timersOf k' s" and "visibleMessage k' s' = visibleMessage k' s"
    by simp_all
qed

lemmas page_v1_eval = run_v1_def showError_v1_def showSuccess_v1_def showInfo_v1_def
  showKind_v1_def

text \<open>
  C5 (as amended). On a page that loads notifications.js, at most one expiry is pending
  for each message kind in every state the page can reach. Once the body exists, a call
  of showMessage for a kind leaves exactly one pending expiry for that kind, the one it
  has just set, due one duration after the call (an earlier one is cancelled); it shows
  its text and leaves the pending expiries and the visible messages of the other kinds
  as they were. On a page that loads the earlier showError, showSuccess and showInfo, a
  call made once the body exists returns, and a call that returns shows its text and
  leaves the pending expiries and the visible messages of the other kinds as they were.
  On either page, when time passes, the visible message of a kind stays as it is unless
  an expiry of that very kind has become due, whatever expiries of other kinds run.
\<close>

theorem showMessage_one_expiry_per_kind:
  assumes "reachable s" and "reachable_v1 s1"
  shows "length (timersOf k s) \<le> 1
    \<and> (bodyReady s \<longrightarrow>
         (\<exists>i. timersOf k (showMessage k msg d s) =
                [\<lparr>timer_handle = nextHandle s, timer_due = now s + d, timer_div = i\<rparr>])
       \<and> visibleMessage k (showMessage k msg d s) = Some msg
       \<and> (\<forall>k'. k' \<noteq> k \<longrightarrow>
             timersOf k' (showMessage k msg d s) = timersOf k' s
           \<and> visibleMessage k' (showMessage k msg d s) = visibleMessage k' s))
    \<and> (list_all (\<lambda>t. now s + dt < timer_due t) (timersOf k s) \<longrightarrow>
         visibleMessage k (elapse dt s) = visibleMessage k s)
    \<and> (bodyReady s1 \<longrightarrow> (\<exists>s2. showKind_v1 k msg s1 = Inr s2))
    \<and> (\<forall>s2. showKind_v1 k msg s1 = Inr s2 \<longrightarrow>
          visibleMessage k s2 = Some msg
        \<and> (\<forall>k'. k' \<noteq> k \<longrightarrow>
              timersOf k' s2 = timersOf k' s1 \<and> visibleMessage k' s2 = visibleMessage k' s1))
    \<and> (list_all (\<lambda>t. now s1 + dt < timer_due t) (timersOf k s1) \<longrightarrow>
         visibleMessage k (elapse dt s1) = visibleMessage k s1)"
proof -
  from assms(1) have wf: "wellFormed s" by (rule reachable_wellFormed)
  from assms(2) have wf1: "wellFormed_v1 s1" by (rule reachable_v1_wellFormed)
  have new: "length (timersOf k s) \<le> 1
    \<and> (bodyReady s \<longrightarrow>
         (\<exists>i. timersOf k (showMessage k msg d s) =
                [\<lparr>timer_handle = nextHandle s, timer_due = now s + d, timer_div = i\<rparr>])
       \<and> visibleMessage k (showMessage k msg d s) = Some msg
       \<and> (\<forall>k'. k' \<noteq> k \<longrightarrow>
             timersOf k' (showMessage k msg d s) = timersOf k' s
           \<and> visibleMessage k' (showMessage k msg d s) = visibleMessage k' s))"
    using at_most_one_timer [OF wf] showMessage_ready [OF wf] by blast
  have pass: "list_all (\<lambda>t. now s + dt < timer_due t) (timersOf k s) \<longrightarrow>
         visibleMessage k (elapse dt s) = visibleMessage k s"
    "list_all (\<lambda>t. now s1 + dt < timer_due t) (timersOf k s1) \<longrightarrow>
         visibleMessage k (elapse dt s1) = visibleMessage k s1"
    using visible_elapse by blast+
  have old: "bodyReady s1 \<longrightarrow> (\<exists>s2. showKind_v1 k msg s1 = Inr s2)"
    "\<forall>s2. showKind_v1 k msg s1 = Inr s2 \<longrightarrow>
          visibleMessage k s2 = Some msg
        \<and> (\<forall>k'. k' \<noteq> k \<longrightarrow>
              timersOf k' s2 = timersOf k' s1 \<and> visibleMessage k' s2 = visibleMessage k' s1)"
    using showKind_v1_returns [of s1 k msg] showKind_v1_shows [OF wf1]
      showKind_v1_other_kinds [OF wf1]
    by blast+
  from new pass old show ?thesis by simp
qed

theorem showMessage_one_expiry_per_kind_witness:
  "reachable (run [BodyParsed, Show ErrorKind (str ''x'') 5000, Elapse 2000,
                   Show SuccessKind (str ''ok'') 5000, Elapse 1000])
   \<and> reachable_v1 (run_v1 [BodyParsed_v1, ShowSuccess_v1 (str ''ok''), Elapse_v1 1000])
   \<and> timersOf ErrorKind (run [BodyParsed, Show ErrorKind (str ''x'') 5000, Elapse 2000,
                   Show SuccessKind (str ''ok'') 5000, Elapse 1000]) =
         [\<lparr>timer_handle = 1, timer_due = 5000, timer_div = 0\<rparr>]
   \<and> timersOf ErrorKind (run [BodyParsed, Show ErrorKind (str ''x'') 5000, Elapse 2000,
                   Show SuccessKind (str ''ok'') 5000, Elapse 1000,
                   Show ErrorKind (str ''x'') 5000]) =
         [\<lparr>timer_handle = 3, timer_due = 8000, timer_div = 0\<rparr>]
   \<and> timersOf SuccessKind (run [BodyParsed, Show ErrorKind (str ''x'') 5000, Elapse 2000,
                   Show SuccessKind (str ''ok'') 5000, Elapse 1000,
                   Show ErrorKind (str ''x'') 5000]) =
         [\<lparr>timer_handle = 2, timer_due = 7000, timer_div = 1\<rparr>]
   \<and> visibleMessage ErrorKind (run [BodyParsed, Show ErrorKind (str ''x'') 5000, Elapse 2000,
                   Show SuccessKind (str ''ok'') 5000, Elapse 1000,
                   Show ErrorKind (str ''x'') 5000, Elapse 3000]) = Some (str ''x'')
   \<and> visibleMessage SuccessKind (run [BodyParsed, Show ErrorKind (str ''x'') 5000, Elapse 2000,
                   Show SuccessKind (str ''ok'') 5000, Elapse 1000,
                   Show ErrorKind (str ''x'') 5000, Elapse 3000]) = Some (str ''ok'')
   \<and> visibleMessage SuccessKind (run [BodyParsed, Show ErrorKind (str ''x'') 5000, Elapse 2000,
                   Show SuccessKind (str ''ok'') 5000, Elapse 1000,
                   Show ErrorKind (str ''x'') 5000, Elapse 3000, Elapse 1000]) = None
   \<and> visibleMessage ErrorKind (run [BodyParsed, Show ErrorKind (str ''x'') 5000, Elapse 2000,
                   Show SuccessKind (str ''ok'') 5000, Elapse 1000,
                   Show ErrorKind (str ''x'') 5000, Elapse 3000, Elapse 1000]) = Some (str ''x'')
   \<and> visibleMessage ErrorKind (run_v1 [BodyParsed_v1, ShowSuccess_v1 (str ''ok''),
                   Elapse_v1 1000, ShowError_v1 (str ''x'')]) = Some (str ''x'')
   \<and> visibleMessage SuccessKind (run_v1 [BodyParsed_v1, ShowSuccess_v1 (str ''ok''),
                   Elapse_v1 1000, ShowError_v1 (str ''x'')]) = Some (str ''ok'')
   \<and> timersOf SuccessKind (run_v1 [BodyParsed_v1, ShowSuccess_v1 (str ''ok''),
                   Elapse_v1 1000, ShowError_v1 (str ''x'')]) =
         [\<lparr>timer_handle = 1, timer_due = 5000, timer_div = 0\<rparr>]"
proof -
  let ?es = "[BodyParsed, Show ErrorKind (str ''x'') 5000, Elapse 2000,
              Show SuccessKind (str ''ok'') 5000, Elapse 1000]"
  let ?os = "[BodyParsed_v1, ShowSuccess_v1 (str ''ok''), Elapse_v1 1000]"
  have r: "reachable (run ?es)" by (rule reachable_run)
  have r1: "reachable_v1 (run_v1 ?os)" by (rule reachable_v1_run)
  have b: "bodyReady (run ?es)" "nextHandle (run ?es) = 3" "now (run ?es) = 3000"
    by (simp_all add: page_eval)
  have b1: "bodyReady (run_v1 ?os)"
    "visibleMessage SuccessKind (run_v1 ?os) = Some (str ''ok'')"
    "timersOf SuccessKind (run_v1 ?os) = [\<lparr>timer_handle = 1, timer_due = 5000, timer_div = 0\<rparr>]"
    by (simp_all add: page_v1_eval page_eval)
  have ext: "run_v1 (?os @ [ShowError_v1 (str ''x'')]) =
      step_v1 (ShowError_v1 (str ''x'')) (run_v1 ?os)"
    by (simp only: run_v1_def foldl_append foldl_Cons foldl_Nil)
  note T = showMessage_one_expiry_per_kind [OF r r1, of ErrorKind "str ''x''" 5000 0]
  from T b obtain i where "timersOf ErrorKind (showMessage ErrorKind (str ''x'') 5000 (run ?es)) =
       [\<lparr>timer_handle = 3, timer_due = 8000, timer_div = i\<rparr>]"
    by auto
  from T b1(1) obtain s2 where s2: "showKind_v1 ErrorKind (str ''x'') (run_v1 ?os) = Inr s2"
    by blast
  with T have "visibleMessage ErrorKind s2 = Some (str ''x'')"
    and "timersOf SuccessKind s2 = timersOf SuccessKind (run_v1 ?os)"
    and "visibleMessage SuccessKind s2 = visibleMessage SuccessKind (run_v1 ?os)"
    by auto
  with s2 ext b1 showError_v1_def have old:
    "visibleMessage ErrorKind (run_v1 (?os @ [ShowError_v1 (str ''x'')])) = Some (str ''x'')"
    "visibleMessage SuccessKind (run_v1 (?os @ [ShowError_v1 (str ''x'')])) = Some (str ''ok'')"
    "timersOf SuccessKind (run_v1 (?os @ [ShowError_v1 (str ''x'')])) =
         [\<lparr>timer_handle = 1, timer_due = 5000, timer_div = 0\<rparr>]"
    by simp_all
  have "timersOf ErrorKind (run (?es @ [Show ErrorKind (str ''x'') 5000])) =
         [\<lparr>timer_handle = 3, timer_due = 8000, timer_div = 0\<rparr>]"
    by (simp add: page_eval)
  moreover have "timersOf ErrorKind (run ?es) = [\<lparr>timer_handle = 1, timer_due = 5000, timer_div = 0\<rparr>]"
    by (simp add: page_eval)
  moreover have "timersOf SuccessKind (run (?es @ [Show ErrorKind (str ''x'') 5000])) =
         [\<lparr>timer_handle = 2, timer_due = 7000, timer_div = 1\<rparr>]"
    by (simp add: page_eval)
  moreover have "visibleMessage ErrorKind (run (?es @ [Show ErrorKind (str ''x'') 5000, Elapse 3000]))
      = Some (str ''x'')"
    "visibleMessage SuccessKind (run (?es @ [Show ErrorKind (str ''x'') 5000, Elapse 3000]))
      = Some (str ''ok'')"
    "visibleMessage SuccessKind (run (?es @ [Show ErrorKind (str ''x'') 5000, Elapse 3000, Elapse 1000]))
      = None"
    "visibleMessage ErrorKind (run (?es @ [Show ErrorKind (str ''x'') 5000, Elapse 3000, Elapse 1000]))
      = Some (str ''x'')"
    by (simp_all add: page_eval)
  ultimately show ?thesis using r r1 old by simp
qed

text \<open>
  The claim as stated fails on the earlier showError, which cancels nothing: two calls
  2000 ms apart leave two pending expiries for the error message, and the first of them
  hides the second text 3000 ms after it was shown. It fails on showMessage too for calls
  made before the body exists: two such calls leave no pending expiry at all, and the one
  that DOMContentLoaded then sets belongs to the first text and is timed from that
  event.
\<close>

theorem showError_v1_two_expiries:
  "timersOf ErrorKind (run_v1 [BodyParsed_v1, ShowError_v1 (str ''x''), Elapse_v1 2000,
        ShowError_v1 (str ''y'')]) =
     [\<lparr>timer_handle = 1, timer_due = 5000, timer_div = 0\<rparr>,
      \<lparr>timer_handle = 2, timer_due = 7000, timer_div = 0\<rparr>]
   \<and> visibleMessage ErrorKind (run_v1 [BodyParsed_v1, ShowError_v1 (str ''x''),
        Elapse_v1 2000, ShowError_v1 (str ''y'')]) = Some (str ''y'')
   \<and> visibleMessage ErrorKind (run_v1 [BodyParsed_v1, ShowError_v1 (str ''x''),
        Elapse_v1 2000, ShowError_v1 (str ''y''), Elapse_v1 3000]) = None
   \<and> timersOf ErrorKind (run [Show ErrorKind (str ''x'') 5000, Elapse 2000,
        Show ErrorKind (str ''y'') 5000]) = []
   \<and> timersOf ErrorKind (run [Show ErrorKind (str ''x'') 5000, Elapse 2000,
        Show ErrorKind (str ''y'') 5000, BodyParsed, Elapse 1000, DomContentLoaded]) =
     [\<lparr>timer_handle = 1, timer_due = 8000, timer_div = 0\<rparr>]
   \<and> visibleMessage ErrorKind (run [Show ErrorKind (str ''x'') 5000, Elapse 2000,
        Show ErrorKind (str ''y'') 5000, BodyParsed, Elapse 1000, DomContentLoaded]) =
     Some (str ''x'')"
  by (simp add: page_v1_eval page_eval)

section \<open>Properties of skill keys\<close>

subsection \<open>Keys are written in a small alphabet\<close>

lemma hexUpper_key: "isKeyChar (hexUpper n)"
proof -
  have "n mod 16 < 16" by simp
  then show ?thesis
    by (auto simp: hexUpper_def isKeyChar_def isUnreserved_def isAlpha_def isDigit_def cu_def)
qed

lemma percentEncode_key: "list_all isKeyChar (percentEncode bs)"
  by (induction bs) (simp_all add: percentEncode_def hexUpper_key, simp add: isKeyChar_def)

lemma encodeURIComponent_key:
  "encodeURIComponent s = Some k \<Longrightarrow> list_all isKeyChar k"
proof (induction s arbitrary: k rule: encodeURIComponent.induct)
  case 1
  then show ?case by simp
next
  case (2 c cs)
  show ?case
  proof (cases "isUnreserved c")
    case True
    with "2.prems" obtain r where "encodeURIComponent cs = Some r" "k = c # r" by auto
    with "2.IH"(1) [OF True] True show ?thesis by (simp add: isKeyChar_def)
  next
    case False
    note nu = False
    show ?thesis
    proof (cases "isTrailSurrogate c")
      case True
      with nu "2.prems" show ?thesis by simp
    next
      case False
      note nt = False
      show ?thesis
      proof (cases "isLeadSurrogate c")
        case True
        with nu nt "2.prems" obtain d ds r where cs: "cs = d # ds" "isTrailSurrogate d"
          "encodeURIComponent ds = Some r" "k = percentEncode (utf8 (surrogatePair c d)) @ r"
          by (auto split: list.splits if_splits)
        from "2.IH"(2) [OF nu nt True cs(1,2,3)] cs(4) show ?thesis
          by (simp add: percentEncode_key)
      next
        case False
        with nu nt "2.prems" obtain r where "encodeURIComponent cs = Some r"
          "k = percentEncode (utf8 c) @ r" by auto
        with "2.IH"(3) [OF nu nt False] show ?thesis by (simp add: percentEncode_key)
      qed
    qed
  qed
qed

subsection \<open>An escaped key reads back as the key\<close>

lemma isKeyChar_range:
  assumes "isKeyChar c"
  shows "33 \<le> c" "c \<le> 126" "c \<noteq> cu CHR 0x22" "c \<noteq> cu CHR 0x5C" "c \<noteq> cu CHR ''&''"
  using assms
  by (auto simp: isKeyChar_def isUnreserved_def isAlpha_def isDigit_def cu_def)

lemma plain_piece:
  assumes "c \<noteq> cu CHR 0x22" "c \<noteq> 10" "c \<noteq> cu CHR 0x5C"
  shows "consumeString (c # rest) = map_option (\<lambda>(v, r). (c # v, r)) (consumeString rest)"
  using assms by simp

lemma backslash_piece:
  assumes "\<not> isHexDigit c" "c \<noteq> 10" "c < 0x10000"
  shows "consumeString (cu CHR 0x5C # c # rest) =
           map_option (\<lambda>(v, r). (c # v, r)) (consumeString rest)"
  using assms by (simp add: consumeEscaped_def codeUnits_def cu_def)

lemma digit_values:
  assumes "isDigit c"
  shows "c = 48 \<or> c = 49 \<or> c = 50 \<or> c = 51 \<or> c = 52 \<or> c = 53 \<or> c = 54 \<or> c = 55 \<or> c = 56 \<or> c = 57"
  using assms unfolding isDigit_def cu_def by simp arith

lemma digit_piece:
  assumes "isDigit c"
  shows "consumeString (escapeAsCodePoint c @ rest) =
           map_option (\<lambda>(v, r). (c # v, r)) (consumeString rest)"
  using digit_values [OF assms]
  by (elim disjE)
    (simp_all add: escapeAsCodePoint_def hexLower_def consumeEscaped_def codeUnits_def cu_def
      isHexDigit_def isDigit_def hexValue_def hexDigitValue_def isCssWhitespace_def)

lemma key_not_plain_not_hex:
  assumes "isKeyChar c" "\<not> (c = cu CHR ''-'' \<or> c = cu CHR ''_'' \<or> isDigit c \<or> isAlpha c)"
  shows "\<not> isHexDigit c"
  using assms by (auto simp: isHexDigit_def isAlpha_def isDigit_def cu_def)

lemma cssEscapeChar_piece:
  assumes key: "isKeyChar c"
  shows "consumeString (cssEscapeChar s (i, c) @ rest) =
           map_option (\<lambda>(v, r). (c # v, r)) (consumeString rest)"
proof -
  note r = isKeyChar_range [OF key]
  from r have basic: "c \<noteq> 0" "\<not> ((1 \<le> c \<and> c \<le> 0x1F) \<or> c = 0x7F)" "\<not> 0x80 \<le> c" "c \<noteq> 10"
    "c < 0x10000"
    by simp_all
  let ?plain = "c = cu CHR ''-'' \<or> c = cu CHR ''_'' \<or> isDigit c \<or> isAlpha c"
  show ?thesis
  proof (cases "isDigit c \<and> (i = 0 \<or> (i = 1 \<and> hd s = cu CHR ''-''))")
    case True
    with basic have "cssEscapeChar s (i, c) = escapeAsCodePoint c"
      by (auto simp: cssEscapeChar_def)
    with True show ?thesis by (simp add: digit_piece)
  next
    case False
    note nd = False
    show ?thesis
    proof (cases "i = 0 \<and> length s = 1 \<and> c = cu CHR ''-''")
      case True
      with basic nd have e: "cssEscapeChar s (i, c) = [cu CHR 0x5C, c]"
        by (auto simp: cssEscapeChar_def)
      have "\<not> isHexDigit c" using True by (simp add: isHexDigit_def isDigit_def cu_def)
      with e basic show ?thesis using backslash_piece [of c rest] by simp
    next
      case False
      note nh = False
      show ?thesis
      proof (cases ?plain)
        case True
        with basic nd nh have "cssEscapeChar s (i, c) = [c]"
          by (auto simp: cssEscapeChar_def)
        with r basic show ?thesis using plain_piece [of c rest] by simp
      next
        case False
        with basic nd nh have "cssEscapeChar s (i, c) = [cu CHR 0x5C, c]"
          by (auto simp: cssEscapeChar_def)
        with key_not_plain_not_hex [OF key False] basic
        show ?thesis using backslash_piece [of c rest] by simp
      qed
    qed
  qed
qed

lemma isCssSpecial_not_hex: "isCssSpecial c \<Longrightarrow> \<not> isHexDigit c \<and> c \<noteq> 10 \<and> c < 0x10000"
  by (auto simp: isCssSpecial_def isHexDigit_def isDigit_def cu_def str_def)

lemma fallback_piece:
  assumes key: "isKeyChar c"
  shows "consumeString ((if isCssSpecial c then [cu CHR 0x5C, c] else [c]) @ rest) =
           map_option (\<lambda>(v, r). (c # v, r)) (consumeString rest)"
proof (cases "isCssSpecial c")
  case True
  with isCssSpecial_not_hex [OF True] backslash_piece [of c rest] show ?thesis by simp
next
  case False
  note r = isKeyChar_range [OF key]
  from r have "c \<noteq> 10" by simp
  with False r plain_piece [of c rest] show ?thesis by simp
qed

lemma map_option_comp_cons:
  "map_option (\<lambda>(v, r). (c # v, r)) (map_option (\<lambda>(v, r). (cs @ v, r)) x) =
   map_option (\<lambda>(v, r). ((c # cs) @ v, r)) x"
  by (cases x) auto

lemma consumeString_pieces:
  assumes "\<And>p rest. p \<in> set ps \<Longrightarrow>
     consumeString (f p @ rest) = map_option (\<lambda>(v, r). (g p # v, r)) (consumeString rest)"
  shows "consumeString (concat (map f ps) @ rest) =
           map_option (\<lambda>(v, r). (map g ps @ v, r)) (consumeString rest)"
  using assms
proof (induction ps)
  case Nil
  show ?case by (cases "consumeString rest") auto
next
  case (Cons p ps)
  have "consumeString (concat (map f (p # ps)) @ rest) =
      consumeString (f p @ (concat (map f ps) @ rest))" by simp
  also have "\<dots> = map_option (\<lambda>(v, r). (g p # v, r)) (consumeString (concat (map f ps) @ rest))"
    by (rule Cons.prems) simp
  also have "consumeString (concat (map f ps) @ rest) =
      map_option (\<lambda>(v, r). (map g ps @ v, r)) (consumeString rest)"
    by (rule Cons.IH) (simp add: Cons.prems)
  finally show ?case by (simp add: map_option_comp_cons)
qed

lemma replaceEach_concat: "replaceEach P f s = concat (map (\<lambda>c. if P c then f c else [c]) s)"
  by (induction s) simp_all

lemma consumeString_escaped:
  assumes key: "list_all isKeyChar k"
  shows "consumeString (safeCssEscape css (Some k) @ rest) =
           map_option (\<lambda>(v, r). (k @ v, r)) (consumeString rest)"
proof (cases css)
  case True
  have "consumeString (concat (map (cssEscapeChar k) (enumerate 0 k)) @ rest) =
        map_option (\<lambda>(v, r). (map snd (enumerate 0 k) @ v, r)) (consumeString rest)"
  proof (rule consumeString_pieces)
    fix p rest assume "p \<in> set (enumerate 0 k)"
    then have "isKeyChar (snd p)" using key by (auto simp: in_set_enumerate_eq list_all_length)
    from cssEscapeChar_piece [OF this, of k "fst p" rest]
    show "consumeString (cssEscapeChar k p @ rest) =
       map_option (\<lambda>(v, r). (snd p # v, r)) (consumeString rest)" by simp
  qed
  with True show ?thesis by (simp add: safeCssEscape_def CSS_escape_def)
next
  case False
  have "consumeString (concat (map (\<lambda>c. if isCssSpecial c then [cu CHR 0x5C, c] else [c]) k) @ rest) =
        map_option (\<lambda>(v, r). (map (\<lambda>c. c) k @ v, r)) (consumeString rest)"
  proof (rule consumeString_pieces)
    fix p rest assume "p \<in> set k"
    then have "isKeyChar p" using key by (simp add: list_all_iff)
    from fallback_piece [OF this, of rest]
    show "consumeString ((if isCssSpecial p then [cu CHR 0x5C, p] else [p]) @ rest) =
       map_option (\<lambda>(v, r). (p # v, r)) (consumeString rest)" .
  qed
  with False show ?thesis by (simp add: safeCssEscape_def replaceEach_concat)
qed

lemma cssPreprocess_clean: "list_all cssClean x \<Longrightarrow> cssPreprocess x = x"
  by (induction x rule: cssPreprocess.induct) (auto simp: cssClean_def)

lemma hexLower_clean: "cssClean (hexLower n)"
  by (simp add: hexLower_def cssClean_def cu_def)

lemma cssEscapeChar_forms:
  "cssEscapeChar s (i, c) = [0xFFFD] \<or> cssEscapeChar s (i, c) = escapeAsCodePoint c \<or>
   cssEscapeChar s (i, c) = [cu CHR 0x5C, c] \<or> cssEscapeChar s (i, c) = [c]"
  by (simp add: cssEscapeChar_def)

lemma cssEscapeChar_clean:
  assumes "isKeyChar c"
  shows "list_all cssClean (cssEscapeChar s (i, c))"
proof -
  from isKeyChar_range(1) [OF assms] have c: "cssClean c" by (simp add: cssClean_def)
  have b: "cssClean (cu CHR 0x5C)" "cssClean (cu CHR '' '')" "cssClean 0xFFFD"
    by (simp_all add: cssClean_def cu_def)
  have "list_all cssClean (escapeAsCodePoint c)"
    using b by (simp add: escapeAsCodePoint_def hexLower_clean)
  with b c cssEscapeChar_forms [of s i c] show ?thesis by (elim disjE) simp_all
qed

lemma list_all_concat_map:
  "(\<And>x. x \<in> set xs \<Longrightarrow> list_all P (f x)) \<Longrightarrow> list_all P (concat (map f xs))"
  by (induction xs) simp_all

lemma safeCssEscape_clean:
  assumes key: "list_all isKeyChar k"
  shows "list_all cssClean (safeCssEscape css (Some k))"
proof (cases css)
  case True
  have "list_all cssClean (concat (map (cssEscapeChar k) (enumerate 0 k)))"
  proof (rule list_all_concat_map)
    fix p assume "p \<in> set (enumerate 0 k)"
    then have "isKeyChar (snd p)" using key by (auto simp: in_set_enumerate_eq list_all_length)
    from cssEscapeChar_clean [OF this, of k "fst p"] show "list_all cssClean (cssEscapeChar k p)"
      by simp
  qed
  with True show ?thesis by (simp add: safeCssEscape_def CSS_escape_def)
next
  case False
  have "list_all cssClean (concat (map (\<lambda>c. if isCssSpecial c then [cu CHR 0x5C, c] else [c]) k))"
  proof (rule list_all_concat_map)
    fix c assume "c \<in> set k"
    then have "isKeyChar c" using key by (simp add: list_all_iff)
    from isKeyChar_range(1) [OF this]
    show "list_all cssClean (if isCssSpecial c then [cu CHR 0x5C, c] else [c])"
      by (simp add: cssClean_def cu_def)
  qed
  with False show ?thesis by (simp add: safeCssEscape_def replaceEach_concat)
qed

lemma attributeSelectorValue_key:
  assumes key: "list_all isKeyChar k"
  shows "attributeSelectorValue
           (str ''[data-skill='' @ dq @ safeCssEscape css (Some k) @ dq @ str '']'') = Some k"
proof -
  let ?opening = "str ''[data-skill='' @ dq"
  let ?sel = "?opening @ safeCssEscape css (Some k) @ dq @ str '']''"
  have "list_all cssClean ?sel"
    using safeCssEscape_clean [OF key, of css] by (simp add: cssClean_def dq_def cu_def str_def)
  then have pre: "cssPreprocess ?sel = ?sel" by (rule cssPreprocess_clean)
  have "consumeString (safeCssEscape css (Some k) @ dq @ str '']'') =
      map_option (\<lambda>(v, r). (k @ v, r)) (consumeString (dq @ str '']''))"
    by (rule consumeString_escaped [OF key])
  also have "consumeString (dq @ str '']'') = Some ([], str '']'')"
    by (simp add: dq_def)
  finally have "consumeString (safeCssEscape css (Some k) @ dq @ str '']'') = Some (k, str '']'')"
    by simp
  then show ?thesis
    using pre by (simp add: attributeSelectorValue_def Let_def)
qed

lemma htmlAttributeValue_key:
  assumes key: "list_all isKeyChar k"
  shows "htmlAttributeValue (k @ dq @ rest) = Some (k, rest)"
proof -
  have q: "\<forall>c \<in> set k. c \<noteq> cu CHR 0x22"
    and other: "cu CHR ''&'' \<notin> set k" "0 \<notin> set k" "13 \<notin> set k"
  proof -
    have "\<forall>c \<in> set k. isKeyChar c" using key by (simp add: list_all_iff)
    then have r: "\<forall>c \<in> set k. 33 \<le> c \<and> c \<noteq> cu CHR 0x22 \<and> c \<noteq> cu CHR ''&''"
      using isKeyChar_range by blast
    then show "\<forall>c \<in> set k. c \<noteq> cu CHR 0x22" by blast
    from r show "cu CHR ''&'' \<notin> set k" by blast
    from r show "0 \<notin> set k" by fastforce
    from r show "13 \<notin> set k" by fastforce
  qed
  from q have "takeWhile (\<lambda>c. c \<noteq> cu CHR 0x22) (k @ dq @ rest) = k"
    and "dropWhile (\<lambda>c. c \<noteq> cu CHR 0x22) (k @ dq @ rest) = dq @ rest"
    by (simp_all add: takeWhile_append2 dropWhile_append2 dq_def)
  with other show ?thesis by (simp add: htmlAttributeValue_def dq_def)
qed

lemma foldl_update_indices:
  assumes "distinct js" "\<forall>j \<in> set js. j < length doc"
  shows "foldl (\<lambda>d i. d[i := f (d ! i)]) doc js =
           map (\<lambda>j. if j \<in> set js then f (doc ! j) else doc ! j) [0..<length doc]"
  using assms
proof (induction js rule: rev_induct)
  case Nil
  show ?case by (simp add: map_nth)
next
  case (snoc i js)
  let ?d = "foldl (\<lambda>d i. d[i := f (d ! i)]) doc js"
  from snoc have IH: "?d = map (\<lambda>j. if j \<in> set js then f (doc ! j) else doc ! j) [0..<length doc]"
    by simp
  from snoc.prems have i: "i \<notin> set js" "i < length doc" by simp_all
  have len: "length ?d = length doc" by (simp add: IH)
  have "?d ! i = doc ! i" using i by (simp add: IH)
  then have "foldl (\<lambda>d i. d[i := f (d ! i)]) doc (js @ [i]) = ?d[i := f (doc ! i)]" by simp
  also have "\<dots> = map (\<lambda>j. if j \<in> set (js @ [i]) then f (doc ! j) else doc ! j) [0..<length doc]"
  proof (rule nth_equalityI)
    show "length (?d[i := f (doc ! i)]) =
       length (map (\<lambda>j. if j \<in> set (js @ [i]) then f (doc ! j) else doc ! j) [0..<length doc])"
      by (simp add: len)
  next
    fix j assume "j < length (?d[i := f (doc ! i)])"
    then have j: "j < length doc" by (simp add: len)
    then show "?d[i := f (doc ! i)] ! j =
       map (\<lambda>j. if j \<in> set (js @ [i]) then f (doc ! j) else doc ! j) [0..<length doc] ! j"
      using len by (cases "j = i") (simp_all add: IH)
  qed
  finally show ?case .
qed

lemma foldl_update_matching:
  "foldl (\<lambda>d i. d[i := f (d ! i)]) doc (filter (\<lambda>i. Q (doc ! i)) [0..<length doc]) =
     map (\<lambda>e. if Q e then f e else e) doc"
proof -
  have "foldl (\<lambda>d i. d[i := f (d ! i)]) doc (filter (\<lambda>i. Q (doc ! i)) [0..<length doc]) =
      map (\<lambda>j. if j \<in> set (filter (\<lambda>i. Q (doc ! i)) [0..<length doc]) then f (doc ! j) else doc ! j)
        [0..<length doc]"
    by (rule foldl_update_indices) simp_all
  also have "\<dots> = map (\<lambda>e. if Q e then f e else e) doc"
    by (rule nth_equalityI) simp_all
  finally show ?thesis .
qed

lemma highlightEach_single:
  assumes k: "normalizeSkillKey s = Some k"
  shows "querySelectorAll (str ''[data-skill='' @ dq @ safeCssEscape css (Some k) @ dq @ str '']'') doc =
           Some (filter (\<lambda>i. data_skill (doc ! i) = Some k) [0..<length doc])"
    and "highlightEach css hov [s] doc =
           Returned (map (\<lambda>e. if data_skill e = Some k then setHighlighted hov e else e) doc)"
proof -
  from k have key: "list_all isKeyChar k"
    unfolding normalizeSkillKey_def by (rule encodeURIComponent_key)
  show q: "querySelectorAll (str ''[data-skill='' @ dq @ safeCssEscape css (Some k) @ dq @ str '']'') doc =
           Some (filter (\<lambda>i. data_skill (doc ! i) = Some k) [0..<length doc])"
    by (simp add: querySelectorAll_def attributeSelectorValue_key [OF key])
  show "highlightEach css hov [s] doc =
           Returned (map (\<lambda>e. if data_skill e = Some k then setHighlighted hov e else e) doc)"
    using k q foldl_update_matching [of "setHighlighted hov" doc "\<lambda>e. data_skill e = Some k"]
    by (simp add: Let_def)
qed

lemma skillSpans_contains:
  assumes "skillSpans ss = Some h" "s \<in> set ss"
  shows "\<exists>k pre post. normalizeSkillKey s = Some k \<and>
           h = pre @ str ''data-skill='' @ dq @ k @ dq @ post"
  using assms
proof (induction ss arbitrary: h)
  case Nil
  then show ?case by simp
next
  case (Cons x xs)
  from Cons.prems(1) obtain hx hr where hx: "skillSpan x = Some hx" "skillSpans xs = Some hr"
    "h = hx @ hr" by (auto split: option.splits)
  show ?case
  proof (cases "s = x")
    case True
    from hx(1) obtain k where k: "normalizeSkillKey x = Some k"
      "hx = (str ''<span class='' @ dq @ str ''skill-tag'' @ dq @ str '' '') @
            str ''data-skill='' @ dq @ k @ dq @ (str ''>'' @ escapeHtml (Some x) @ str ''</span>'')"
      by (auto simp: skillSpan_def Let_def str_def split: option.splits)
    then have "h = (str ''<span class='' @ dq @ str ''skill-tag'' @ dq @ str '' '') @
            str ''data-skill='' @ dq @ k @ dq @ ((str ''>'' @ escapeHtml (Some x) @ str ''</span>'') @ hr)"
      using hx(3) by simp
    with k(1) True show ?thesis by blast
  next
    case False
    with Cons.prems(2) have "s \<in> set xs" by simp
    from Cons.IH [OF hx(2) this] obtain k pre post where
      "normalizeSkillKey s = Some k" "hr = pre @ str ''data-skill='' @ dq @ k @ dq @ post" by blast
    then have "normalizeSkillKey s = Some k \<and> h = (hx @ pre) @ str ''data-skill='' @ dq @ k @ dq @ post"
      using hx(3) by simp
    then show ?thesis by blast
  qed
qed

lemma projectMarkup_split:
  "\<exists>X Y. projectMarkup pid sc bt ec lbl ect sh = X @ sh @ Y"
proof -
  have "projectMarkup pid sc bt ec lbl ect sh =
     (nl 8 @ str ''<div id='' @ dq @ pid @ dq @ str '' class='' @ dq @
       str ''project-box '' @ sc @ dq @ str '' data-expanded='' @ dq @ bt @ dq @
       str '' data-toggle='' @ dq @ str ''project'' @ dq @ str ''>'' @
     nl 12 @ str ''<div class='' @ dq @ str ''project-header'' @ dq @ str ''>'' @
     nl 16 @ str ''<h3 class='' @ dq @ str ''project-title'' @ dq @ str ''>'' @
       ec @ str ''</h3>'' @
     nl 16 @ str ''<span class='' @ dq @ str ''project-type'' @ dq @ str ''>'' @
       lbl @ str ''</span>'' @
     nl 12 @ str ''</div>'' @
     nl 12 @ str ''<div class='' @ dq @ str ''project-content'' @ dq @ str ''>'' @
     nl 16 @ ect @
     nl 12 @ str ''</div>'' @
     nl 12) @ sh @ (nl 8 @ str ''</div>'' @ nl 4)"
    unfolding projectMarkup_def by (simp only: append_assoc)
  then show ?thesis by blast
qed

lemma developProject_contains:
  assumes dev: "developProject big ty cat sh lo (Some ss) uid = Markup html" and s: "s \<in> set ss"
  shows "\<exists>k pre post. normalizeSkillKey s = Some k \<and>
           html = pre @ str ''data-skill='' @ dq @ k @ dq @ post"
proof -
  from s have ne: "ss \<noteq> []" by auto
  from dev ne obtain h where h: "skillSpans ss = Some h"
    and m: "html = projectMarkup (str ''project-'' @ uid) (sizeClass big)
                     (if big = 1 then str ''1'' else str ''0'')
                     (escapeHtml cat) (if ty = 1 then str ''Personal Project'' else str ''School Project'')
                     (escapeHtml (if big = 1 then lo else sh))
                     (str ''<div class='' @ dq @ str ''skills-container'' @ dq @
                                          str ''>'' @ h @ str ''</div>'')"
    unfolding developProject_def Let_def
    by (auto split: if_splits option.splits)
  from projectMarkup_split obtain X Y where
    "html = X @ (str ''<div class='' @ dq @ str ''skills-container'' @ dq @
                                          str ''>'' @ h @ str ''</div>'') @ Y"
    unfolding m by blast
  then have html: "html = (X @ str ''<div class='' @ dq @ str ''skills-container'' @ dq @
                                          str ''>'') @ h @ (str ''</div>'' @ Y)"
    by simp
  from skillSpans_contains [OF h s] obtain k pre post where
    k: "normalizeSkillKey s = Some k" "h = pre @ str ''data-skill='' @ dq @ k @ dq @ post"
    by blast
  then have "html = ((X @ str ''<div class='' @ dq @ str ''skills-container'' @ dq @
                                          str ''>'') @ pre) @ str ''data-skill='' @ dq @ k @ dq @ (post @ (str ''</div>'' @ Y))"
    using html by simp
  with k(1) show ?thesis by blast
qed

subsection \<open>Examples\<close>

lemmas key_eval = normalizeSkillKey_def isUnreserved_def isAlpha_def isDigit_def
  isLeadSurrogate_def isTrailSurrogate_def surrogatePair_def utf8_def percentEncode_def
  hexUpper_def dq_def str_def cu_def

lemma key_example: "normalizeSkillKey (str ''3D (CAD)'') = Some (str ''3D%20(CAD)'')"
  by (simp add: key_eval)

lemma key_examples:
  "normalizeSkillKey (str ''C++'') = Some (str ''C%2B%2B'')"
  "normalizeSkillKey [0xD83D, 0xDE00] = Some (str ''%F0%9F%98%80'')"
  "normalizeSkillKey [0xD83D] = None"
  "normalizeSkillKey [233] = Some (str ''%C3%A9'')"
  by (simp_all add: key_eval)

lemmas css_eval = safeCssEscape_def CSS_escape_def cssEscapeChar_def escapeAsCodePoint_def
  hexLower_def isAlpha_def isDigit_def dq_def str_def cu_def

lemma escape_example: "safeCssEscape True (Some (str ''3D%20(CAD)'')) = [92] @ str ''33 D'' @ [92] @ str ''%20'' @ [92] @ str ''('' @ str ''CAD'' @ [92] @ str '')''"
  by (simp add: css_eval)

lemma escape_fallback_example: "safeCssEscape False (Some (str ''3D%20(CAD)'')) = str ''3D'' @ [92] @ str ''%20'' @ [92] @ str ''('' @ str ''CAD'' @ [92] @ str '')''"
  by (simp add: css_eval isCssSpecial_def)

text \<open>
  C4. For every skill string, render time and highlight time use the same key. When
  normalizeSkillKey gives a key, the tag that developProject writes carries that key as
  its data-skill attribute (the HTML attribute value is the key itself), the selector
  that highlightSkill builds from escapeSelectorValue(key), with or without CSS.escape,
  is an attribute selector whose value is the key, it selects exactly the elements whose
  data-skill is the key, and highlightSkill marks exactly those. When normalizeSkillKey
  throws (a lone surrogate), it throws in both places: no tag is written and no element
  is marked. The key is a function of the skill alone.
\<close>

theorem skill_key_agreement:
  "(case normalizeSkillKey s of
      None \<Rightarrow>
        skillSpan s = None \<and> highlightEach css hov [s] doc = Thrown doc
    | Some k \<Rightarrow>
        skillSpan s =
          Some (str ''<span class='' @ dq @ str ''skill-tag'' @ dq @ str '' data-skill='' @ dq @
                k @ dq @ str ''>'' @ escapeHtml (Some s) @ str ''</span>'')
      \<and> htmlAttributeValue (k @ dq @ rest) = Some (k, rest)
      \<and> attributeSelectorValue
          (str ''[data-skill='' @ dq @ safeCssEscape css (Some k) @ dq @ str '']'') = Some k
      \<and> querySelectorAll
          (str ''[data-skill='' @ dq @ safeCssEscape css (Some k) @ dq @ str '']'') doc =
          Some (filter (\<lambda>i. data_skill (doc ! i) = Some k) [0..<length doc])
      \<and> highlightEach css hov [s] doc =
          Returned (map (\<lambda>e. if data_skill e = Some k then setHighlighted hov e else e) doc))
   \<and> (developProject big ty cat sh lo (Some ss) uid = Markup html \<and> s \<in> set ss \<longrightarrow>
        (\<exists>k pre post. normalizeSkillKey s = Some k \<and>
           html = pre @ str ''data-skill='' @ dq @ k @ dq @ post))"
proof -
  have dev: "developProject big ty cat sh lo (Some ss) uid = Markup html \<and> s \<in> set ss \<longrightarrow>
        (\<exists>k pre post. normalizeSkillKey s = Some k \<and>
           html = pre @ str ''data-skill='' @ dq @ k @ dq @ post)"
    using developProject_contains by blast
  show ?thesis
  proof (cases "normalizeSkillKey s")
    case None
    then show ?thesis using dev by (simp add: skillSpan_def)
  next
    case (Some k)
    then have key: "list_all isKeyChar k"
      unfolding normalizeSkillKey_def by (rule encodeURIComponent_key)
    from Some have "skillSpan s =
          Some (str ''<span class='' @ dq @ str ''skill-tag'' @ dq @ str '' data-skill='' @ dq @
                k @ dq @ str ''>'' @ escapeHtml (Some s) @ str ''</span>'')"
      by (simp add: skillSpan_def)
    with Some dev htmlAttributeValue_key [OF key, of rest] attributeSelectorValue_key [OF key, of css]
      highlightEach_single(1) [OF Some, where css = css and doc = doc]
      highlightEach_single(2) [OF Some, where css = css and doc = doc and hov = hov]
    show ?thesis by simp
  qed
qed

theorem skill_key_agreement_witness:
  "normalizeSkillKey (str ''3D (CAD)'') = Some (str ''3D%20(CAD)'')
   \<and> developProject 1 1 (Some (str ''Tools'')) (Some (str ''short'')) (Some (str ''long''))
        (Some [str ''3D (CAD)'']) (str ''u1'') =
       Markup (projectMarkup (str ''project-u1'') (str ''project-large'') (str ''1'')
                 (str ''Tools'') (str ''Personal Project'') (str ''long'')
                 (str ''<div class='' @ dq @ str ''skills-container'' @ dq @ str ''>'' @
                  str ''<span class='' @ dq @ str ''skill-tag'' @ dq @ str '' data-skill='' @ dq @
                  str ''3D%20(CAD)'' @ dq @ str ''>3D (CAD)</span>'' @ str ''</div>''))
   \<and> (\<exists>pre post.
         projectMarkup (str ''project-u1'') (str ''project-large'') (str ''1'')
                 (str ''Tools'') (str ''Personal Project'') (str ''long'')
                 (str ''<div class='' @ dq @ str ''skills-container'' @ dq @ str ''>'' @
                  str ''<span class='' @ dq @ str ''skill-tag'' @ dq @ str '' data-skill='' @ dq @
                  str ''3D%20(CAD)'' @ dq @ str ''>3D (CAD)</span>'' @ str ''</div>'') =
         pre @ str ''data-skill='' @ dq @ str ''3D%20(CAD)'' @ dq @ post)
   \<and> safeCssEscape True (Some (str ''3D%20(CAD)'')) =
       [92] @ str ''33 D'' @ [92] @ str ''%20'' @ [92] @ str ''('' @ str ''CAD'' @ [92] @ str '')''
   \<and> attributeSelectorValue
        (str ''[data-skill='' @ dq @ [92] @ str ''33 D'' @ [92] @ str ''%20'' @ [92] @ str ''('' @
         str ''CAD'' @ [92] @ str '')'' @ dq @ str '']'') = Some (str ''3D%20(CAD)'')
   \<and> highlightSkill True True (Some [str ''3D (CAD)'']) True
        [\<lparr>data_skill = Some (str ''3D%20(CAD)''), tag_classList = [str ''skill-tag'']\<rparr>,
         \<lparr>data_skill = Some (str ''3D''), tag_classList = [str ''skill-tag'']\<rparr>] =
       Returned
        [\<lparr>data_skill = Some (str ''3D%20(CAD)''),
          tag_classList = [str ''skill-tag'', str ''skill-highlighted'']\<rparr>,
         \<lparr>data_skill = Some (str ''3D''), tag_classList = [str ''skill-tag'']\<rparr>]"
proof -
  let ?s = "str ''3D (CAD)''" and ?k = "str ''3D%20(CAD)''"
  let ?doc = "[\<lparr>data_skill = Some ?k, tag_classList = [str ''skill-tag'']\<rparr>,
         \<lparr>data_skill = Some (str ''3D''), tag_classList = [str ''skill-tag'']\<rparr>]"
  let ?html = "projectMarkup (str ''project-u1'') (str ''project-large'') (str ''1'')
                 (str ''Tools'') (str ''Personal Project'') (str ''long'')
                 (str ''<div class='' @ dq @ str ''skills-container'' @ dq @ str ''>'' @
                  str ''<span class='' @ dq @ str ''skill-tag'' @ dq @ str '' data-skill='' @ dq @
                  str ''3D%20(CAD)'' @ dq @ str ''>3D (CAD)</span>'' @ str ''</div>'')"
  have k: "normalizeSkillKey ?s = Some ?k" by (rule key_example)
  have esc: "escapeHtml (Some ?s) = ?s" "escapeHtml (Some (str ''Tools'')) = str ''Tools''"
    "escapeHtml (Some (str ''long'')) = str ''long''"
    by (simp_all add: escapeHtml_def isHtmlSpecial_def cu_def str_def)
  have span: "skillSpan ?s = Some (str ''<span class='' @ dq @ str ''skill-tag'' @ dq @
      str '' data-skill='' @ dq @ ?k @ dq @ str ''>3D (CAD)</span>'')"
    unfolding skillSpan_def Let_def k esc by (simp add: str_def)
  have dev: "developProject 1 1 (Some (str ''Tools'')) (Some (str ''short'')) (Some (str ''long''))
        (Some [?s]) (str ''u1'') = Markup ?html"
    unfolding developProject_def Let_def
    by (simp add: span esc falsy_def sizeClass_def) (simp add: str_def)
  have c: "safeCssEscape True (Some ?k) =
       [92] @ str ''33 D'' @ [92] @ str ''%20'' @ [92] @ str ''('' @ str ''CAD'' @ [92] @ str '')''"
    by (rule escape_example)
  note T = skill_key_agreement [of ?s True True ?doc "[]" 1 1 "Some (str ''Tools'')"
      "Some (str ''short'')" "Some (str ''long'')" "[?s]" "str ''u1''" ?html]
  from T k have sel: "attributeSelectorValue
          (str ''[data-skill='' @ dq @ safeCssEscape True (Some ?k) @ dq @ str '']'') = Some ?k"
    and hl: "highlightEach True True [?s] ?doc =
          Returned (map (\<lambda>e. if data_skill e = Some ?k then setHighlighted True e else e) ?doc)"
    by simp_all
  from T dev have "\<exists>k pre post. normalizeSkillKey ?s = Some k \<and>
      ?html = pre @ str ''data-skill='' @ dq @ k @ dq @ post"
    by simp
  with k have tagged: "\<exists>pre post. ?html = pre @ str ''data-skill='' @ dq @ ?k @ dq @ post"
    by simp
  from sel have "attributeSelectorValue
        (str ''[data-skill='' @ dq @ [92] @ str ''33 D'' @ [92] @ str ''%20'' @ [92] @ str ''('' @
         str ''CAD'' @ [92] @ str '')'' @ dq @ str '']'') = Some ?k"
    unfolding c by simp
  moreover from hl have "highlightSkill True True (Some [?s]) True ?doc =
       Returned
        [\<lparr>data_skill = Some ?k, tag_classList = [str ''skill-tag'', str ''skill-highlighted'']\<rparr>,
         \<lparr>data_skill = Some (str ''3D''), tag_classList = [str ''skill-tag'']\<rparr>]"
    by (simp add: highlightSkill_def setHighlighted_def classList_add_def str_def)
  ultimately show ?thesis using k dev c tagged by simp
qed

end
